(* ===== verification/Hog_Prelude.thy ===== *)
theory Hog_Prelude
  imports Complex_Main
begin

text \<open>
  Shared vocabulary of the Hog development (\<^verbatim>\<open>src/hog.py\<close>): the Python exceptions
  the modelled code can raise, Python's statement sequencing and \<^verbatim>\<open>for\<close> loops
  over a value that may be an exception or, for code that calls the game loop,
  may not return, the strict-argmax step of the solvers, the goal score, and generic lemmas on
  sums over zipped lists that the distribution and solver theories share.
\<close>

section \<open>Python exceptions as values\<close>

text \<open>
  Every \<^verbatim>\<open>assert\<close>, unbounded recursion and ill-typed access of the code becomes
  an \<open>Inl\<close> value of \<open>py_error + 'a\<close>.
\<close>

datatype py_error =
    AssertionError
  | RecursionError
  | TypeError
  | UnboundLocalError
  | ValueError
  | IndexError
  | ZeroDivisionError

type_synonym 'a py_result = "py_error + 'a"

named_theorems py_simps "evaluation rules of the Python statement combinators"
named_theorems dist_simps "rules for weighted outcome lists"

text \<open>Sequencing: the second statement runs only when the first did not raise.\<close>

definition ebind :: "'e + 'a \<Rightarrow> ('a \<Rightarrow> 'e + 'b) \<Rightarrow> 'e + 'b" where
  "ebind m f = (case m of Inl e \<Rightarrow> Inl e | Inr x \<Rightarrow> f x)"

lemma ebind_Inl [simp, py_simps]: "ebind (Inl e) f = Inl e"
  by (simp add: ebind_def)

lemma ebind_Inr [simp, py_simps]: "ebind (Inr x) f = f x"
  by (simp add: ebind_def)

lemma ebind_eq_Inr [simp]:
  "ebind m f = Inr y \<longleftrightarrow> (\<exists>x. m = Inr x \<and> f x = Inr y)"
  by (cases m) auto

lemma ebind_cong [fundef_cong]:
  "m = m' \<Longrightarrow> (\<And>x. m' = Inr x \<Longrightarrow> f x = g x) \<Longrightarrow> ebind m f = ebind m' g"
  by (cases m) auto

text \<open>
  A Python \<^verbatim>\<open>for x in xs:\<close> loop whose body updates a state and may raise:
  the first exception ends the loop.
\<close>

fun for_each :: "('a \<Rightarrow> 's \<Rightarrow> 'e + 's) \<Rightarrow> 'a list \<Rightarrow> 's \<Rightarrow> 'e + 's" where
  "for_each f [] s = Inr s"
| "for_each f (x # xs) s = ebind (f x s) (for_each f xs)"

lemma for_each_cong [fundef_cong]:
  assumes "xs = ys" and "s = t" and "\<And>x u. x \<in> set ys \<Longrightarrow> f x u = g x u"
  shows "for_each f xs s = for_each g ys t"
  unfolding assms(1,2) using assms(3)
proof (induction ys arbitrary: t)
  case (Cons y ys)
  have "for_each f ys = for_each g ys"
    by (rule ext) (use Cons in simp)
  with Cons.prems show ?case by simp
qed simp

lemma for_each_append [py_simps]:
  "for_each f (xs @ ys) s = ebind (for_each f xs s) (for_each f ys)"
  by (induction xs arbitrary: s) (auto simp: ebind_def split: sum.splits)

text \<open>
  The loop rule: an invariant of the state that every body step keeps holds
  after the loop, when the loop does not raise.
\<close>

lemma for_each_invariant:
  assumes "for_each f xs s = Inr s'" and "P s"
    and "\<And>x u u'. x \<in> set xs \<Longrightarrow> P u \<Longrightarrow> f x u = Inr u' \<Longrightarrow> P u'"
  shows "P s'"
  using assms
proof (induction xs arbitrary: s)
  case (Cons x xs)
  from Cons.prems(1) obtain u where u: "f x s = Inr u" and rest: "for_each f xs u = Inr s'"
    by auto
  from Cons.prems(3) [of x s u] Cons.prems(2) u have "P u" by simp
  with rest Cons.prems(3) show ?case by (intro Cons.IH) auto
qed simp

text \<open>A loop whose body never raises never raises.\<close>

lemma for_each_total:
  assumes "\<And>x u. x \<in> set xs \<Longrightarrow> P u \<Longrightarrow> \<exists>u'. f x u = Inr u' \<and> P u'" and "P s"
  shows "\<exists>s'. for_each f xs s = Inr s' \<and> P s'"
  using assms
proof (induction xs arbitrary: s)
  case (Cons x xs)
  from Cons.prems obtain u where u: "f x s = Inr u" and "P u" by force
  with Cons.prems(1) have "\<exists>s'. for_each f xs u = Inr s' \<and> P s'" by (intro Cons.IH) auto
  with u show ?case by simp
qed simp

text \<open>
  A loop whose body computes \<open>step x\<close> on one part of the state and keeps an
  invariant of the other part computes the fold of \<open>step\<close>: the rule by which
  the solver's loops refine their pure specifications.
\<close>

lemma for_each_fold:
  assumes "\<And>x b u. x \<in> set xs \<Longrightarrow> P u \<Longrightarrow> \<exists>u'. f x (b, u) = Inr (step x b, u') \<and> P u'"
    and "P u"
  shows "\<exists>u'. for_each f xs (b, u) = Inr (fold step xs b, u') \<and> P u'"
  using assms
proof (induction xs arbitrary: b u)
  case (Cons x xs)
  from Cons.prems obtain u' where u': "f x (b, u) = Inr (step x b, u')" and "P u'" by force
  have "\<exists>u''. for_each f xs (step x b, u') = Inr (fold step xs (step x b), u'') \<and> P u''"
    by (rule Cons.IH) (use Cons.prems(1) \<open>P u'\<close> in auto)
  with u' show ?case by simp
qed simp

lemma fold_add_sum: "fold (\<lambda>x w. w + h x) xs w = w + sum_list (map h xs)"
  by (induction xs arbitrary: w) (simp_all add: add.assoc)

text \<open>
  A loop that fills a state: each step keeps \<open>P\<close>, grows the state in the
  preorder \<open>R\<close> and establishes \<open>Q x\<close>, which later growth keeps; after the
  loop \<open>Q x\<close> holds of every element.
\<close>

lemma for_each_fill:
  assumes step: "\<And>x u. x \<in> set xs \<Longrightarrow> P u \<Longrightarrow> \<exists>u'. f x u = Inr u' \<and> P u' \<and> R u u' \<and> Q x u'"
    and "P s"
    and refl: "\<And>u. R u u" and trans: "\<And>u u' u''. R u u' \<Longrightarrow> R u' u'' \<Longrightarrow> R u u''"
    and keep: "\<And>x u u'. Q x u \<Longrightarrow> R u u' \<Longrightarrow> Q x u'"
  shows "\<exists>s'. for_each f xs s = Inr s' \<and> P s' \<and> R s s' \<and> (\<forall>x \<in> set xs. Q x s')"
  using step \<open>P s\<close>
proof (induction xs arbitrary: s)
  case Nil
  then show ?case by (simp add: refl)
next
  case (Cons x xs)
  from Cons.prems obtain u where u: "f x s = Inr u" "P u" "R s u" "Q x u" by force
  have "\<exists>s'. for_each f xs u = Inr s' \<and> P s' \<and> R u s' \<and> (\<forall>y \<in> set xs. Q y s')"
    by (rule Cons.IH) (use Cons.prems(1) u(2) in auto)
  then obtain s' where "for_each f xs u = Inr s'" "P s'" "R u s'" "\<forall>y \<in> set xs. Q y s'"
    by blast
  with u show ?case by (auto intro: trans keep)
qed

text \<open>A loop whose body does not raise computes the fold of its body.\<close>

lemma for_each_pure:
  "(\<And>x b. x \<in> set xs \<Longrightarrow> f x b = Inr (step x b)) \<Longrightarrow> for_each f xs b = Inr (fold step xs b)"
  by (induction xs arbitrary: b) simp_all

section \<open>Code that may not return\<close>

text \<open>
  Code that calls \<^verbatim>\<open>play\<close>, whose loop need not end, either does not return
  (\<open>None\<close>), raises (\<open>Some (Inl e)\<close>) or returns (\<open>Some (Inr x)\<close>).
\<close>

type_synonym 'a py_outcome = "'a py_result option"

definition obind :: "'a py_outcome \<Rightarrow> ('a \<Rightarrow> 'b py_outcome) \<Rightarrow> 'b py_outcome" where
  "obind m f = (case m of None \<Rightarrow> None | Some (Inl e) \<Rightarrow> Some (Inl e) | Some (Inr x) \<Rightarrow> f x)"

lemma obind_simps [simp, py_simps]:
  "obind None f = None" "obind (Some (Inl e)) f = Some (Inl e)" "obind (Some (Inr x)) f = f x"
  by (simp_all add: obind_def)

lemma obind_eq_Inr [simp]:
  "obind m f = Some (Inr y) \<longleftrightarrow> (\<exists>x. m = Some (Inr x) \<and> f x = Some (Inr y))"
  by (auto simp: obind_def split: option.splits sum.splits)

text \<open>A \<^verbatim>\<open>for\<close> loop whose body may raise or not return.\<close>

fun for_each_o :: "('a \<Rightarrow> 's \<Rightarrow> 's py_outcome) \<Rightarrow> 'a list \<Rightarrow> 's \<Rightarrow> 's py_outcome" where
  "for_each_o f [] s = Some (Inr s)"
| "for_each_o f (x # xs) s = obind (f x s) (for_each_o f xs)"

text \<open>The loop rule: a body that returns and keeps \<open>P\<close> makes the loop return.\<close>

lemma for_each_o_total:
  assumes "\<And>x u. x \<in> set xs \<Longrightarrow> P u \<Longrightarrow> \<exists>u'. f x u = Some (Inr u') \<and> P u'" and "P s"
  shows "\<exists>s'. for_each_o f xs s = Some (Inr s') \<and> P s'"
  using assms
proof (induction xs arbitrary: s)
  case (Cons x xs)
  from Cons.prems obtain u where u: "f x s = Some (Inr u)" and "P u" by force
  with Cons.prems(1) have "\<exists>s'. for_each_o f xs u = Some (Inr s') \<and> P s'" by (intro Cons.IH) auto
  with u show ?case by simp
qed simp

text \<open>A loop that computes \<open>step x\<close> on one part of its state computes its fold.\<close>

lemma for_each_o_fold:
  assumes "\<And>x b u. x \<in> set xs \<Longrightarrow> P u \<Longrightarrow> \<exists>u'. f x (b, u) = Some (Inr (step x b, u')) \<and> P u'"
    and "P u"
  shows "\<exists>u'. for_each_o f xs (b, u) = Some (Inr (fold step xs b, u')) \<and> P u'"
  using assms
proof (induction xs arbitrary: b u)
  case (Cons x xs)
  from Cons.prems obtain u' where u': "f x (b, u) = Some (Inr (step x b, u'))" and "P u'" by force
  have "\<exists>u''. for_each_o f xs (step x b, u') = Some (Inr (fold step xs (step x b), u'')) \<and> P u''"
    by (rule Cons.IH) (use Cons.prems(1) \<open>P u'\<close> in auto)
  with u' show ?case by simp
qed simp

section \<open>Keeping the strictly best candidate\<close>

text \<open>
  Both solvers choose a move by the loop \<^verbatim>\<open>if value > max_value: max_value,
  max_roll = value, num_roll\<close> (\<^verbatim>\<open>src/hog.py\<close> lines 392--394 and
  411--413); \<open>max_roll\<close> is \<open>None\<close> while it is unbound.
\<close>

definition pick_step :: "nat \<times> rat \<Rightarrow> rat \<times> nat option \<Rightarrow> rat \<times> nat option" where
  "pick_step candidate best =
     (case candidate of (num_roll, win_prob) \<Rightarrow>
        case best of (max_prob, max_roll) \<Rightarrow>
          if max_prob < win_prob then (win_prob, Some num_roll) else (max_prob, max_roll))"

text \<open>
  The loop over \<open>0, \<dots>, n - 1\<close> ends with the greatest value, and binds the first
  candidate that has it, unless no candidate beats the initial value.
\<close>

lemma fold_pick_step_argmax:
  "fold pick_step (map (\<lambda>k. (k, v k)) [0..<n]) (p0, None) = (p, r) \<Longrightarrow>
   (\<forall>k<n. v k \<le> p) \<and>
   (case r of None \<Rightarrow> p = p0 | Some m \<Rightarrow> m < n \<and> v m = p \<and> (\<forall>k<m. v k < p))"
proof (induction n arbitrary: p r)
  case 0
  then show ?case by simp
next
  case (Suc n)
  obtain p' r' where prev: "fold pick_step (map (\<lambda>k. (k, v k)) [0..<n]) (p0, None) = (p', r')"
    by fastforce
  note IH = Suc.IH [OF prev]
  have step: "pick_step (n, v n) (p', r') = (p, r)" using Suc.prems prev by simp
  show ?case
  proof (cases "p' < v n")
    case True
    with step have "p = v n" "r = Some n" by (auto simp: pick_step_def)
    with IH True show ?thesis by (auto simp: less_Suc_eq)
  next
    case False
    with step have "p = p'" "r = r'" by (auto simp: pick_step_def)
    with IH False show ?thesis by (auto simp: less_Suc_eq split: option.splits)
  qed
qed

lemma fold_pick_step_some:
  assumes "fold pick_step (map (\<lambda>k. (k, v k)) [0..<n]) (p0, None) = (p, r)"
    and "0 < n" and "p0 < v 0"
  obtains m where "r = Some m" "m < n" "v m = p" "\<forall>k<n. v k \<le> p" "\<forall>k<m. v k < p"
proof -
  note A = fold_pick_step_argmax [OF assms(1)]
  with assms(2) have "v 0 \<le> p" by simp
  with A assms(3) that show ?thesis by (cases r) auto
qed

section \<open>The game constant\<close>

text \<open>\<^verbatim>\<open>GOAL = 100\<close> (line 10); the solver also writes the literal \<^verbatim>\<open>100\<close>.\<close>

definition GOAL :: nat where
  "GOAL = 100"

lemma GOAL_num [simp]: "GOAL = 100"
  by (simp add: GOAL_def)

section \<open>Sums over zipped lists\<close>

text \<open>
  A distribution of the code is a pair of parallel lists (outcomes, weights).
  \<open>wsum vs ws g\<close> is \<open>\<Sum>\<^sub>i ws!i * g (vs!i)\<close>, the weighted sum the code
  accumulates in its loops.
\<close>

definition wsum :: "'a list \<Rightarrow> rat list \<Rightarrow> ('a \<Rightarrow> rat) \<Rightarrow> rat" where
  "wsum vs ws g = sum_list (map (\<lambda>(v, w). w * g v) (zip vs ws))"

lemma wsum_Nil [simp, dist_simps]: "wsum [] ws g = 0" "wsum vs [] g = 0"
  by (simp_all add: wsum_def)

lemma wsum_Cons [simp, dist_simps]: "wsum (v # vs) (w # ws) g = w * g v + wsum vs ws g"
  by (simp add: wsum_def)

lemma wsum_append [dist_simps]:
  "length vs = length ws \<Longrightarrow> wsum (vs @ vs') (ws @ ws') g = wsum vs ws g + wsum vs' ws' g"
  by (induction vs ws rule: list_induct2) auto

lemma wsum_cong [fundef_cong]:
  "vs = vs' \<Longrightarrow> ws = ws' \<Longrightarrow> (\<And>v. v \<in> set vs' \<Longrightarrow> g v = g' v) \<Longrightarrow>
   wsum vs ws g = wsum vs' ws' g'"
  unfolding wsum_def by (auto intro!: arg_cong[where f = sum_list] map_cong dest: set_zip_leftD)

lemma wsum_add: "wsum vs ws (\<lambda>v. g v + h v) = wsum vs ws g + wsum vs ws h"
  by (induction vs ws rule: list_induct2') (auto simp: algebra_simps)

lemma wsum_scale_fun: "wsum vs ws (\<lambda>v. c * g v) = c * wsum vs ws g"
  by (induction vs ws rule: list_induct2') (auto simp: algebra_simps)

lemma wsum_scale_weights: "wsum vs (map (\<lambda>w. w * c) ws) g = c * wsum vs ws g"
  by (induction vs ws rule: list_induct2') (auto simp: algebra_simps)

lemma wsum_zero [simp]: "wsum vs ws (\<lambda>_. 0) = 0"
  by (induction vs ws rule: list_induct2') auto

lemma wsum_sum_list:
  "wsum vs ws (\<lambda>v. sum_list (map (f v) xs)) = sum_list (map (\<lambda>x. wsum vs ws (\<lambda>v. f v x)) xs)"
proof (induction xs)
  case (Cons x xs)
  then show ?case by (simp add: wsum_add)
qed simp

lemma wsum_one: "length vs = length ws \<Longrightarrow> wsum vs ws (\<lambda>_. 1) = sum_list ws"
  by (induction vs ws rule: list_induct2) auto

lemma wsum_mono:
  assumes "\<forall>w \<in> set ws. 0 \<le> w" and "\<And>v. v \<in> set vs \<Longrightarrow> g v \<le> h v"
  shows "wsum vs ws g \<le> wsum vs ws h"
  using assms
proof (induction vs ws rule: list_induct2')
  case (4 v vs w ws)
  then have "w * g v \<le> w * h v" by (simp add: mult_left_mono)
  with 4 show ?case by (simp add: add_mono)
qed auto

lemma wsum_nonneg:
  "\<forall>w \<in> set ws. 0 \<le> w \<Longrightarrow> (\<And>v. v \<in> set vs \<Longrightarrow> 0 \<le> g v) \<Longrightarrow> 0 \<le> wsum vs ws g"
  using wsum_mono [of ws vs "\<lambda>_. 0" g] by simp


section \<open>Sums of lists\<close>

lemma sum_list_concat_map: "sum_list (concat xss) = sum_list (map sum_list (xss :: 'a::monoid_add list list))"
  by (induction xss) simp_all

lemma sum_list_pos: "xs \<noteq> [] \<Longrightarrow> \<forall>x \<in> set xs. (0::rat) < x \<Longrightarrow> 0 < sum_list xs"
proof (induction xs)
  case (Cons x xs)
  show ?case
  proof (cases "xs = []")
    case False
    with Cons show ?thesis by (simp add: add_pos_pos)
  qed (use Cons in simp)
qed simp

lemma sum_list_divide: "sum_list (map (\<lambda>w. w / t) ws) = sum_list ws / (t :: rat)"
  by (induction ws) (simp_all add: add_divide_distrib)

section \<open>Bounded ranges\<close>

text \<open>Splitting the first index off a loop over \<open>[k, n)\<close>.\<close>

lemma all_from_Suc:
  assumes "k < n"
  shows "(P k \<and> (\<forall>j. Suc k \<le> j \<and> j < n \<longrightarrow> P j)) \<longleftrightarrow> (\<forall>j. k \<le> j \<and> j < n \<longrightarrow> P j)"
proof
  assume A: "P k \<and> (\<forall>j. Suc k \<le> j \<and> j < n \<longrightarrow> P j)"
  show "\<forall>j. k \<le> j \<and> j < n \<longrightarrow> P j"
  proof (intro allI impI)
    fix j assume j: "k \<le> j \<and> j < n"
    show "P j"
    proof (cases "j = k")
      case False
      with j have "Suc k \<le> j" by simp
      with A j show ?thesis by simp
    qed (use A in simp)
  qed
next
  assume "\<forall>j. k \<le> j \<and> j < n \<longrightarrow> P j"
  with assms show "P k \<and> (\<forall>j. Suc k \<le> j \<and> j < n \<longrightarrow> P j)" by simp
qed

end
