(* ===== verification/Rules.thy ===== *)
theory Rules
  imports Hog_Prelude
begin

text \<open>
  The two scoring rules of \<^verbatim>\<open>src/hog.py\<close>: Pig Tail (\<^verbatim>\<open>tail_points\<close>, lines
  42--51), the points for rolling zero dice, and Square Swine
  (\<^verbatim>\<open>perfect_square\<close>, \<^verbatim>\<open>next_perfect_square\<close>, lines 90--100, and
  \<^verbatim>\<open>square_add\<close>, lines 358--360). Scores are Python integers that never go
  negative in the game, so they are \<open>nat\<close>.
\<close>

section \<open>Pig Tail\<close>

definition tail_points :: "nat \<Rightarrow> nat" where
  "tail_points opponent_score =
     (let ones = opponent_score mod 10;
          tens = (opponent_score div 10) mod 10
      in 2 * nat \<bar>int tens - int ones\<bar> + 1)"

section \<open>Square Swine\<close>

text \<open>
  The code tests a perfect square with the float \<^verbatim>\<open>score ** 0.5\<close> and takes
  \<^verbatim>\<open>int(score ** 0.5)\<close> as the root. For the scores of the game (below
  \<open>2\<^sup>5\<^sup>2\<close>) the float root of a perfect square \<open>k\<^sup>2\<close> is exactly \<open>k\<close> and the
  float root of any other number is not an integer, so both are the integer
  square root \<open>isqrt\<close> below: the greatest \<open>k\<close> with \<open>k\<^sup>2 \<le> n\<close>, found by
  counting up from 0.
\<close>

function isqrt_from :: "nat \<Rightarrow> nat \<Rightarrow> nat" where
  "isqrt_from n k = (if (Suc k)\<^sup>2 \<le> n then isqrt_from n (Suc k) else k)"
  by pat_completeness auto
termination
proof (relation "measure (\<lambda>(n, k). Suc n - k)")
  fix n k :: nat
  assume "(Suc k)\<^sup>2 \<le> n"
  moreover have "Suc k \<le> (Suc k)\<^sup>2" by (simp add: power2_eq_square)
  ultimately show "((n, Suc k), n, k) \<in> measure (\<lambda>(n, k). Suc n - k)" by simp
qed auto

declare isqrt_from.simps [simp del]

definition isqrt :: "nat \<Rightarrow> nat" where
  "isqrt n = isqrt_from n 0"

definition perfect_square :: "nat \<Rightarrow> bool" where
  "perfect_square score \<longleftrightarrow> (isqrt score)\<^sup>2 = score"

definition next_perfect_square :: "nat \<Rightarrow> nat" where
  "next_perfect_square score = (Suc (isqrt score))\<^sup>2"

definition square_add :: "nat \<Rightarrow> nat \<Rightarrow> nat" where
  "square_add score roll_sum =
     (let score = score + roll_sum
      in if perfect_square score then next_perfect_square score else score)"

section \<open>Integer square root\<close>

lemma isqrt_from_spec:
  "k\<^sup>2 \<le> n \<Longrightarrow> (isqrt_from n k)\<^sup>2 \<le> n \<and> n < (Suc (isqrt_from n k))\<^sup>2"
proof (induction n k rule: isqrt_from.induct)
  case (1 n k)
  show ?case
  proof (cases "(Suc k)\<^sup>2 \<le> n")
    case True
    with "1.IH" show ?thesis by (simp add: isqrt_from.simps [of n k])
  next
    case False
    with "1.prems" show ?thesis by (simp add: isqrt_from.simps [of n k])
  qed
qed

lemma isqrt_lower: "(isqrt n)\<^sup>2 \<le> n"
  using isqrt_from_spec [of 0 n] by (simp add: isqrt_def)

lemma isqrt_upper: "n < (Suc (isqrt n))\<^sup>2"
  using isqrt_from_spec [of 0 n] by (simp add: isqrt_def)

lemma isqrt_unique: "k\<^sup>2 \<le> n \<Longrightarrow> n < (Suc k)\<^sup>2 \<Longrightarrow> isqrt n = k"
proof -
  assume lo: "k\<^sup>2 \<le> n" and hi: "n < (Suc k)\<^sup>2"
  have "isqrt n < Suc k"
  proof (rule ccontr)
    assume "\<not> isqrt n < Suc k"
    then have "(Suc k)\<^sup>2 \<le> (isqrt n)\<^sup>2" by (intro power_mono) simp_all
    with isqrt_lower [of n] hi show False by simp
  qed
  moreover have "k < Suc (isqrt n)"
  proof (rule ccontr)
    assume "\<not> k < Suc (isqrt n)"
    then have "(Suc (isqrt n))\<^sup>2 \<le> k\<^sup>2" by (intro power_mono) simp_all
    with isqrt_upper [of n] lo show False by simp
  qed
  ultimately show ?thesis by simp
qed

lemma isqrt_square [simp]: "isqrt (k\<^sup>2) = k"
  by (rule isqrt_unique) (simp_all add: power2_eq_square)

lemma perfect_square_iff: "perfect_square n \<longleftrightarrow> (\<exists>k. n = k\<^sup>2)"
  unfolding perfect_square_def by (metis isqrt_square)

lemma square_add_cases:
  "square_add s r = (if perfect_square (s + r) then (Suc (isqrt (s + r)))\<^sup>2 else s + r)"
  by (simp add: square_add_def next_perfect_square_def)

lemma square_add_ge: "s + r \<le> square_add s r"
  using isqrt_upper [of "s + r"] by (simp add: square_add_def next_perfect_square_def Let_def)

lemma tail_points_pos: "1 \<le> tail_points x"
  by (simp add: tail_points_def Let_def)

section \<open>Properties of the rules\<close>

text \<open>
  C7. Square Swine: when the new score is the perfect square \<open>k\<^sup>2\<close>, the player
  gets the next perfect square \<open>(k + 1)\<^sup>2\<close>, the smallest square above the score
  (\<^verbatim>\<open>square_add(16, 0) = 25\<close>, \<^verbatim>\<open>square_add(0, 0) = 1\<close>).
\<close>
theorem square_add_square:
  "s + r = k\<^sup>2 \<Longrightarrow> square_add s r = (Suc k)\<^sup>2 \<and> (\<forall>m. s + r < m\<^sup>2 \<longrightarrow> (Suc k)\<^sup>2 \<le> m\<^sup>2)"
proof -
  assume t: "s + r = k\<^sup>2"
  have "(Suc k)\<^sup>2 \<le> m\<^sup>2" if "s + r < m\<^sup>2" for m
  proof -
    from that t have "k < m" by (metis not_less power_mono zero_le)
    then show ?thesis by (simp add: power_mono)
  qed
  with t show ?thesis by (simp add: square_add_cases perfect_square_iff)
qed

theorem square_add_square_witness:
  "(16::nat) + 0 = 4\<^sup>2 \<and> square_add 16 0 = 25"
  using square_add_square [of 16 0 4] by simp

text \<open>
  C8. A new score that is not the square of any number is kept
  (\<^verbatim>\<open>square_add(17, 0) = 17\<close>): the square test accepts no other score.
\<close>
theorem square_add_nonsquare:
  "(\<forall>k. k\<^sup>2 \<noteq> s + r) \<Longrightarrow> square_add s r = s + r"
  by (auto simp: square_add_cases perfect_square_iff)

theorem square_add_nonsquare_witness: "(\<forall>k. k\<^sup>2 \<noteq> (17::nat) + 0) \<and> square_add 17 0 = 17"
proof -
  have h: "\<forall>k. k\<^sup>2 \<noteq> (17::nat) + 0"
  proof
    fix k :: nat
    show "k\<^sup>2 \<noteq> 17 + 0"
    proof (cases "k \<le> 4")
      case True
      then have "k = 0 \<or> k = 1 \<or> k = 2 \<or> k = 3 \<or> k = 4" by arith
      then show ?thesis by (auto simp: power2_eq_square)
    next
      case False
      then have "5\<^sup>2 \<le> k\<^sup>2" by (intro power_mono) simp_all
      then show ?thesis by simp
    qed
  qed
  show ?thesis using h square_add_nonsquare [OF h] by simp
qed

text \<open>
  C9. Square Swine never lowers a score and at most triples it (plus one): the
  result lies between \<open>s + r\<close> and \<open>3 (s + r) + 1\<close>.
\<close>
theorem square_add_bounds: "s + r \<le> square_add s r \<and> square_add s r \<le> 3 * (s + r) + 1"
proof (cases "perfect_square (s + r)")
  case True
  then obtain k where k: "s + r = k\<^sup>2" by (auto simp: perfect_square_iff)
  have "(Suc k)\<^sup>2 \<le> 3 * k\<^sup>2 + 1"
  proof (cases k)
    case (Suc j)
    then show ?thesis by (simp add: power2_eq_square algebra_simps)
  qed simp
  with k show ?thesis by (simp add: square_add_cases perfect_square_iff power_mono)
qed (simp add: square_add_cases)

text \<open>
  C10. Pig Tail always gives an odd number of points between 1 and 19, whatever
  the opponent's score; in particular rolling zero dice always scores.
\<close>
theorem tail_points_bounds: "1 \<le> tail_points x \<and> tail_points x \<le> 19 \<and> odd (tail_points x)"
proof -
  have "x mod 10 < 10" and "x div 10 mod 10 < 10" by simp_all
  then have "nat \<bar>int (x div 10 mod 10) - int (x mod 10)\<bar> \<le> 9" by linarith
  then show ?thesis by (simp add: tail_points_def Let_def)
qed

end
