(* ===== verification/Simulator.thy ===== *)
theory Simulator
  imports Rules
begin

text \<open>
  Phase 1 and the simple strategies of Phase 2 of \<^verbatim>\<open>src/hog.py\<close>: rolling dice
  (\<^verbatim>\<open>roll_dice\<close>), one turn (\<^verbatim>\<open>take_turn\<close>), the two score updates
  (\<^verbatim>\<open>simple_update\<close>, \<^verbatim>\<open>square_update\<close>), the game loop (\<^verbatim>\<open>play\<close>) and the
  strategies \<^verbatim>\<open>always_roll_5\<close>, \<^verbatim>\<open>always_roll\<close>, \<^verbatim>\<open>catch_up\<close>,
  \<^verbatim>\<open>is_always_roll\<close>, \<^verbatim>\<open>tail_strategy\<close>, \<^verbatim>\<open>square_strategy\<close>.

  A Python dice is a function of no arguments with hidden state (a random
  generator, or the index of \<^verbatim>\<open>make_test_dice\<close>). It is modelled as an explicit
  state \<open>'d\<close> and a step \<open>'d \<Rightarrow> nat \<times> 'd\<close> returning the outcome and the next
  state; every operation threads the dice state. Scores and dice counts are
  \<open>nat\<close>: the asserts on \<^verbatim>\<open>num_rolls >= 0\<close> and on its type always hold for them.
\<close>

type_synonym 'd dice = "'d \<Rightarrow> nat \<times> 'd"
type_synonym strategy = "nat \<Rightarrow> nat \<Rightarrow> nat"
type_synonym 'd update = "nat \<Rightarrow> nat \<Rightarrow> nat \<Rightarrow> 'd dice \<Rightarrow> 'd \<Rightarrow> (nat \<times> 'd) py_result"

section \<open>Dice\<close>

text \<open>
  \<^verbatim>\<open>make_test_dice(*outcomes)\<close> of the course's \<^verbatim>\<open>dice.py\<close> (not in the
  repository): a dice that cycles through the given outcomes, starting with the
  first. Its state is the index of the last outcome returned.
\<close>

definition test_dice :: "nat list \<Rightarrow> nat dice" where
  "test_dice outcomes index =
     (let index = Suc index mod length outcomes in (outcomes ! index, index))"

definition test_dice_start :: "nat list \<Rightarrow> nat" where
  "test_dice_start outcomes = length outcomes - 1"

section \<open>One turn\<close>

text \<open>Lines 31--35: \<^verbatim>\<open>for _ in range(num_rolls)\<close> with \<^verbatim>\<open>sum\<close> and \<^verbatim>\<open>one_rolled\<close>.\<close>

fun roll_loop :: "'d dice \<Rightarrow> nat \<Rightarrow> nat \<times> bool \<times> 'd \<Rightarrow> nat \<times> bool \<times> 'd" where
  "roll_loop dice 0 st = st"
| "roll_loop dice (Suc k) (roll_sum, one_rolled, ds) =
     (case dice ds of (roll, ds') \<Rightarrow> roll_loop dice k (roll_sum + roll, one_rolled \<or> roll = 1, ds'))"

text \<open>Lines 17--37.\<close>

definition roll_dice :: "nat \<Rightarrow> 'd dice \<Rightarrow> 'd \<Rightarrow> (nat \<times> 'd) py_result" where
  "roll_dice num_rolls dice ds =
     (if \<not> 0 < num_rolls then Inl AssertionError
      else (case roll_loop dice num_rolls (0, False, ds) of
              (roll_sum, one_rolled, ds') \<Rightarrow> Inr (if one_rolled then 1 else roll_sum, ds')))"

text \<open>Lines 54--67.\<close>

definition take_turn :: "nat \<Rightarrow> nat \<Rightarrow> 'd dice \<Rightarrow> 'd \<Rightarrow> (nat \<times> 'd) py_result" where
  "take_turn num_rolls opponent_score dice ds =
     (if \<not> num_rolls \<le> 10 then Inl AssertionError
      else if num_rolls = 0 then Inr (tail_points opponent_score, ds)
      else roll_dice num_rolls dice ds)"

text \<open>Lines 71--75.\<close>

definition simple_update :: "'d update" where
  "simple_update num_rolls player_score opponent_score dice ds =
     ebind (take_turn num_rolls opponent_score dice ds)
       (\<lambda>(points, ds'). Inr (player_score + points, ds'))"

text \<open>Lines 78--86: the same, with Square Swine.\<close>

definition square_update :: "'d update" where
  "square_update num_rolls player_score opponent_score dice ds =
     ebind (take_turn num_rolls opponent_score dice ds)
       (\<lambda>(points, ds'). Inr (square_add player_score points, ds'))"

text \<open>
  What the game loop needs of a dice and of an update: every outcome is
  positive (true of \<^verbatim>\<open>six_sided\<close> and of test dice with positive outcomes), and
  every legal move raises the mover's score.
\<close>

definition positive_dice :: "'d dice \<Rightarrow> bool" where
  "positive_dice dice \<longleftrightarrow> (\<forall>ds. 1 \<le> fst (dice ds))"

definition progressive :: "'d update \<Rightarrow> 'd dice \<Rightarrow> bool" where
  "progressive update dice \<longleftrightarrow>
     (\<forall>n ps os ds. n \<le> 10 \<longrightarrow> (\<exists>ps' ds'. update n ps os dice ds = Inr (ps', ds') \<and> ps < ps'))"

section \<open>The game\<close>

text \<open>
  Lines 137--148: the \<^verbatim>\<open>while\<close> loop of \<^verbatim>\<open>play\<close>. It need not end (a dice that
  shows 0 and a strategy that rolls it), so it is a partial function into
  \<open>option\<close>: \<open>None\<close> is a game that never ends, \<open>Some (Inl e)\<close> an exception.
  Besides the two scores the loop returns the dice state at the end of the
  game, the hidden state the Python dice keeps for the next call.
\<close>

partial_function (option) play_loop ::
  "strategy \<Rightarrow> strategy \<Rightarrow> 'd update \<Rightarrow> 'd dice \<Rightarrow> nat \<Rightarrow> nat \<Rightarrow> nat \<Rightarrow> nat \<Rightarrow> 'd \<Rightarrow>
   (nat \<times> nat \<times> 'd) py_result option" where
  "play_loop strategy0 strategy1 update dice goal who score0 score1 ds =
     (if score0 < goal \<and> score1 < goal then
        (if who = 0 then
           (case update (strategy0 score0 score1) score0 score1 dice ds of
              Inl e \<Rightarrow> Some (Inl e)
            | Inr (score0', ds') \<Rightarrow>
                play_loop strategy0 strategy1 update dice goal ((who + 1) mod 2) score0' score1 ds')
         else if who = 1 then
           (case update (strategy1 score1 score0) score1 score0 dice ds of
              Inl e \<Rightarrow> Some (Inl e)
            | Inr (score1', ds') \<Rightarrow>
                play_loop strategy0 strategy1 update dice goal ((who + 1) mod 2) score0 score1' ds')
         else Some (Inl AssertionError))
      else Some (Inr (score0, score1, ds)))"

text \<open>Lines 111--148: player 0 moves first.\<close>

definition play ::
  "strategy \<Rightarrow> strategy \<Rightarrow> 'd update \<Rightarrow> nat \<Rightarrow> nat \<Rightarrow> 'd dice \<Rightarrow> nat \<Rightarrow> 'd \<Rightarrow>
   (nat \<times> nat \<times> 'd) py_result option" where
  "play strategy0 strategy1 update score0 score1 dice goal ds =
     play_loop strategy0 strategy1 update dice goal 0 score0 score1 ds"

text \<open>
  One iteration of the loop of lines 139--145 as a transition between states
  \<open>(who, score0, score1, dice state)\<close>: the player \<open>who\<close> moves while both
  scores are below the goal. Its reflexive transitive closure is the set of
  states the loop passes through.
\<close>

inductive play_step ::
  "strategy \<Rightarrow> strategy \<Rightarrow> 'd update \<Rightarrow> 'd dice \<Rightarrow> nat \<Rightarrow>
   nat \<times> nat \<times> nat \<times> 'd \<Rightarrow> nat \<times> nat \<times> nat \<times> 'd \<Rightarrow> bool"
  for strategy0 strategy1 update dice goal
where
  turn0: "score0 < goal \<Longrightarrow> score1 < goal \<Longrightarrow>
    update (strategy0 score0 score1) score0 score1 dice ds = Inr (score0', ds') \<Longrightarrow>
    play_step strategy0 strategy1 update dice goal (0, score0, score1, ds) (1, score0', score1, ds')"
| turn1: "score0 < goal \<Longrightarrow> score1 < goal \<Longrightarrow>
    update (strategy1 score1 score0) score1 score0 dice ds = Inr (score1', ds') \<Longrightarrow>
    play_step strategy0 strategy1 update dice goal (1, score0, score1, ds) (0, score0, score1', ds')"

section \<open>Strategies\<close>

definition always_roll_5 :: strategy where
  "always_roll_5 score opponent_score = 5"

text \<open>Lines 156--178: the assert on \<open>n\<close> is raised when the strategy is made.\<close>

definition always_roll :: "nat \<Rightarrow> strategy py_result" where
  "always_roll n = (if n \<le> 10 then Inr (\<lambda>score opponents_score. n) else Inl AssertionError)"

definition catch_up :: strategy where
  "catch_up score opponent_score = (if score < opponent_score then 6 else 5)"

text \<open>Lines 206--219: the two nested \<^verbatim>\<open>while\<close> loops of \<^verbatim>\<open>is_always_roll\<close>.\<close>

function always_roll_row :: "strategy \<Rightarrow> nat \<Rightarrow> nat \<Rightarrow> nat \<Rightarrow> nat \<Rightarrow> bool" where
  "always_roll_row strategy past_roll goal score opponent_score =
     (if opponent_score < goal then
        (if past_roll \<noteq> strategy score opponent_score then False
         else always_roll_row strategy past_roll goal score (Suc opponent_score))
      else True)"
  by pat_completeness auto
termination
  by (relation "measure (\<lambda>(_, _, goal, _, opponent_score). goal - opponent_score)") auto

function always_roll_rows :: "strategy \<Rightarrow> nat \<Rightarrow> nat \<Rightarrow> nat \<Rightarrow> bool" where
  "always_roll_rows strategy past_roll goal score =
     (if score < goal then
        (if \<not> always_roll_row strategy past_roll goal score 0 then False
         else always_roll_rows strategy past_roll goal (Suc score))
      else True)"
  by pat_completeness auto
termination
  by (relation "measure (\<lambda>(_, _, goal, score). goal - score)") auto

definition is_always_roll :: "strategy \<Rightarrow> nat \<Rightarrow> bool" where
  "is_always_roll strategy goal = always_roll_rows strategy (strategy 0 0) goal 0"

declare always_roll_row.simps [simp del] always_roll_rows.simps [simp del]

text \<open>Lines 312--318.\<close>

definition tail_strategy :: "nat \<Rightarrow> nat \<Rightarrow> strategy" where
  "tail_strategy threshold num_rolls score opponent_score =
     (if threshold \<le> tail_points opponent_score then 0 else num_rolls)"

text \<open>
  Lines 321--325: \<^verbatim>\<open>square_update(0, score, opponent_score)\<close> rolls no dice, so
  its value is \<open>square_add score (tail_points opponent_score)\<close>
  (\<open>square_update_zero\<close> below); the subtraction is Python's, on integers.
\<close>

definition square_strategy :: "nat \<Rightarrow> nat \<Rightarrow> strategy" where
  "square_strategy threshold num_rolls score opponent_score =
     (if int threshold \<le> int (square_add score (tail_points opponent_score)) - int score
      then 0 else num_rolls)"

section \<open>Turns and updates\<close>

lemma progressiveD:
  "progressive update dice \<Longrightarrow> n \<le> 10 \<Longrightarrow>
   \<exists>ps' ds'. update n ps os dice ds = Inr (ps', ds') \<and> ps < ps'"
  by (simp add: progressive_def)

lemma roll_loop_grows:
  "positive_dice dice \<Longrightarrow> roll_loop dice k (t, b, ds) = (t', b', ds') \<Longrightarrow> t + k \<le> t'"
proof (induction k arbitrary: t b ds)
  case (Suc k)
  obtain r ds1 where d: "dice ds = (r, ds1)" by fastforce
  with Suc.prems(1) have "1 \<le> r" by (metis fst_conv positive_dice_def)
  from Suc.prems(2) d have "roll_loop dice k (t + r, b \<or> r = 1, ds1) = (t', b', ds')" by simp
  with Suc.IH [OF Suc.prems(1)] have "t + r + k \<le> t'" by blast
  with \<open>1 \<le> r\<close> show ?case by simp
qed simp

lemma roll_dice_positive:
  assumes pd: "positive_dice dice" and n: "0 < n"
  shows "\<exists>p ds'. roll_dice n dice ds = Inr (p, ds') \<and> 1 \<le> p"
proof -
  obtain t b ds' where l: "roll_loop dice n (0, False, ds) = (t, b, ds')"
    by (metis prod.exhaust)
  have "n \<le> t" using roll_loop_grows [OF pd l] by simp
  with n have "1 \<le> (if b then 1 else t)" by simp
  moreover from n l have "roll_dice n dice ds = Inr (if b then 1 else t, ds')"
    by (simp add: roll_dice_def)
  ultimately show ?thesis by blast
qed

lemma take_turn_positive:
  assumes pd: "positive_dice dice" and n: "n \<le> 10"
  shows "\<exists>p ds'. take_turn n os dice ds = Inr (p, ds') \<and> 1 \<le> p"
proof (cases "n = 0")
  case True
  have "1 \<le> tail_points os" unfolding tail_points_def Let_def by simp
  moreover from True have "take_turn n os dice ds = Inr (tail_points os, ds)"
    by (simp add: take_turn_def)
  ultimately show ?thesis by blast
next
  case False
  then have tt: "take_turn n os dice ds = roll_dice n dice ds" using n by (simp add: take_turn_def)
  from False have "0 < n" by simp
  with roll_dice_positive [OF pd] obtain p ds' where "roll_dice n dice ds = Inr (p, ds')" and "1 \<le> p"
    by blast
  with tt show ?thesis by simp
qed

lemma simple_update_progressive:
  assumes pd: "positive_dice dice"
  shows "progressive simple_update dice"
  unfolding progressive_def
proof (intro allI impI)
  fix n ps os ds assume n10: "n \<le> (10::nat)"
  from take_turn_positive [OF pd n10, of os ds]
  obtain p ds' where "take_turn n os dice ds = Inr (p, ds')" and "1 \<le> p"
    by blast
  then have "simple_update n ps os dice ds = Inr (ps + p, ds')" and "ps < ps + p"
    by (simp_all add: simple_update_def)
  then show "\<exists>ps' ds'. simple_update n ps os dice ds = Inr (ps', ds') \<and> ps < ps'"
    by blast
qed

lemma square_update_progressive:
  assumes pd: "positive_dice dice"
  shows "progressive square_update dice"
  unfolding progressive_def
proof (intro allI impI)
  fix n ps os ds assume n10: "n \<le> (10::nat)"
  from take_turn_positive [OF pd n10, of os ds]
  obtain p ds' where "take_turn n os dice ds = Inr (p, ds')" and "1 \<le> p"
    by blast
  moreover have "ps + p \<le> square_add ps p" by (rule square_add_ge)
  ultimately have "square_update n ps os dice ds = Inr (square_add ps p, ds')" and "ps < square_add ps p"
    by (simp_all add: square_update_def)
  then show "\<exists>ps' ds'. square_update n ps os dice ds = Inr (ps', ds') \<and> ps < ps'"
    by blast
qed

lemma play_loop_terminates:
  assumes prog: "progressive update dice"
    and s0: "\<forall>s t. strategy0 s t \<le> 10" and s1: "\<forall>s t. strategy1 s t \<le> 10"
    and who: "who \<le> 1"
  shows "\<exists>a b ds'. play_loop strategy0 strategy1 update dice goal who score0 score1 ds = Some (Inr (a, b, ds'))
           \<and> (goal \<le> a \<or> goal \<le> b) \<and> (score0 < goal \<or> score1 < goal \<longrightarrow> a < goal \<or> b < goal)"
  using who
proof (induction "(goal - score0) + (goal - score1)" arbitrary: who score0 score1 ds rule: less_induct)
  case less
  show ?case
  proof (cases "score0 < goal \<and> score1 < goal")
    case False
    then show ?thesis by (auto simp: play_loop.simps [of strategy0 strategy1 update dice goal who])
  next
    case run: True
    show ?thesis
    proof (cases "who = 0")
      case True
      from s0 have "strategy0 score0 score1 \<le> 10" by simp
      from progressiveD [OF prog this, of score0 score1 ds] obtain ps' ds'
        where u: "update (strategy0 score0 score1) score0 score1 dice ds = Inr (ps', ds')"
        and gt: "score0 < ps'" by blast
      from gt run have "(goal - ps') + (goal - score1) < (goal - score0) + (goal - score1)" by arith
      from less.hyps [OF this, of "(who + 1) mod 2" ds'] True run u show ?thesis
        by (simp add: play_loop.simps [of strategy0 strategy1 update dice goal 0 score0 score1 ds])
    next
      case False
      with less.prems have w: "who = 1" by simp
      from s1 have "strategy1 score1 score0 \<le> 10" by simp
      from progressiveD [OF prog this, of score1 score0 ds] obtain ps' ds'
        where u: "update (strategy1 score1 score0) score1 score0 dice ds = Inr (ps', ds')"
        and gt: "score1 < ps'" by blast
      from gt run have "(goal - score0) + (goal - ps') < (goal - score0) + (goal - score1)" by arith
      from less.hyps [OF this, of "(who + 1) mod 2" ds'] w run u show ?thesis
        by (simp add: play_loop.simps [of strategy0 strategy1 update dice goal "Suc 0" score0 score1 ds])
    qed
  qed
qed

lemma test_dice_positive:
  assumes "outcomes \<noteq> []" and "\<forall>r \<in> set outcomes. 1 \<le> r"
  shows "positive_dice (test_dice outcomes)"
  using assms by (simp add: positive_dice_def test_dice_def Let_def)

lemma square_update_zero: "square_update 0 ps os dice ds = Inr (square_add ps (tail_points os), ds)"
  by (simp add: square_update_def take_turn_def)

section \<open>is_always_roll\<close>

lemma always_roll_row_iff:
  "always_roll_row strategy p goal s t \<longleftrightarrow> (\<forall>t'. t \<le> t' \<and> t' < goal \<longrightarrow> strategy s t' = p)"
proof (induction strategy p goal s t rule: always_roll_row.induct)
  case (1 strategy p goal s t)
  show ?case
  proof (cases "t < goal")
    case lt: True
    show ?thesis
    proof (cases "strategy s t = p")
      case True
      with lt "1.IH" have "always_roll_row strategy p goal s t \<longleftrightarrow>
          (\<forall>t'. Suc t \<le> t' \<and> t' < goal \<longrightarrow> strategy s t' = p)"
        by (simp add: always_roll_row.simps [of strategy p goal s t])
      also have "\<dots> \<longleftrightarrow> (\<forall>t'. t \<le> t' \<and> t' < goal \<longrightarrow> strategy s t' = p)"
        using all_from_Suc [OF lt, of "\<lambda>t'. strategy s t' = p"] True by simp
      finally show ?thesis .
    next
      case False
      with lt show ?thesis by (auto simp: always_roll_row.simps [of strategy p goal s t])
    qed
  qed (simp add: always_roll_row.simps [of strategy p goal s t])
qed

lemma always_roll_rows_iff:
  "always_roll_rows strategy p goal s \<longleftrightarrow>
   (\<forall>s'. s \<le> s' \<and> s' < goal \<longrightarrow> (\<forall>t. t < goal \<longrightarrow> strategy s' t = p))"
proof (induction strategy p goal s rule: always_roll_rows.induct)
  case (1 strategy p goal s)
  show ?case
  proof (cases "s < goal")
    case lt: True
    have row: "always_roll_row strategy p goal s 0 \<longleftrightarrow> (\<forall>t. t < goal \<longrightarrow> strategy s t = p)"
      by (simp add: always_roll_row_iff)
    show ?thesis
    proof (cases "always_roll_row strategy p goal s 0")
      case True
      with lt "1.IH" have "always_roll_rows strategy p goal s \<longleftrightarrow>
          (\<forall>s'. Suc s \<le> s' \<and> s' < goal \<longrightarrow> (\<forall>t. t < goal \<longrightarrow> strategy s' t = p))"
        by (simp add: always_roll_rows.simps [of strategy p goal s])
      also have "\<dots> \<longleftrightarrow> (\<forall>s'. s \<le> s' \<and> s' < goal \<longrightarrow> (\<forall>t. t < goal \<longrightarrow> strategy s' t = p))"
        using all_from_Suc [OF lt, of "\<lambda>s'. \<forall>t. t < goal \<longrightarrow> strategy s' t = p"] True row
        by simp
      finally show ?thesis .
    next
      case False
      with lt row show ?thesis by (auto simp: always_roll_rows.simps [of strategy p goal s])
    qed
  qed (simp add: always_roll_rows.simps [of strategy p goal s])
qed

section \<open>Properties of the simulator\<close>

text \<open>
  C11. With a dice whose outcomes are positive and strategies that never ask
  for more than 10 dice, \<^verbatim>\<open>play\<close> with Square Swine always ends, without an
  exception, in a state where one player has reached the goal.
\<close>

theorem play_terminates:
  assumes "positive_dice dice"
    and "\<forall>s t. strategy0 s t \<le> 10" and "\<forall>s t. strategy1 s t \<le> 10"
  shows "\<exists>a b ds'. play strategy0 strategy1 square_update score0 score1 dice goal ds = Some (Inr (a, b, ds'))
           \<and> (goal \<le> a \<or> goal \<le> b)"
  unfolding play_def
  using play_loop_terminates [OF square_update_progressive [OF assms(1)] assms(2,3)] by blast

theorem play_terminates_witness:
  "\<exists>a b ds'. play always_roll_5 catch_up square_update 0 0 (test_dice [4, 2, 5, 6]) 100
            (test_dice_start [4, 2, 5, 6]) = Some (Inr (a, b, ds')) \<and> (100 \<le> a \<or> 100 \<le> b)"
proof -
  have d: "positive_dice (test_dice [4, 2, 5, 6])" by (rule test_dice_positive) simp_all
  have s0: "\<forall>s t. always_roll_5 s t \<le> 10" by (simp add: always_roll_5_def)
  have s1: "\<forall>s t. catch_up s t \<le> 10" by (simp add: catch_up_def)
  show ?thesis by (rule play_terminates [OF d s0 s1])
qed

text \<open>
  C12. A strategy that asks for more than 10 dice makes \<^verbatim>\<open>take_turn\<close>'s assert
  fail: \<^verbatim>\<open>play\<close> raises \<^verbatim>\<open>AssertionError\<close> on that turn.
\<close>

theorem play_too_many_dice:
  "score0 < goal \<Longrightarrow> score1 < goal \<Longrightarrow> 10 < strategy0 score0 score1 \<Longrightarrow>
   play strategy0 strategy1 square_update score0 score1 dice goal ds = Some (Inl AssertionError)"
  by (simp add: play_def play_loop.simps [of strategy0 strategy1 square_update dice goal 0]
      square_update_def take_turn_def)

theorem play_too_many_dice_witness:
  "(0::nat) < 100 \<and> 10 < (11::nat) \<and>
   play (\<lambda>_ _. 11) catch_up square_update 0 0 (test_dice [4, 2, 5, 6]) 100 0 = Some (Inl AssertionError)"
  using play_too_many_dice [of 0 100 0 "\<lambda>_ _. 11"] by simp

text \<open>
  C13. \<^verbatim>\<open>is_always_roll\<close> returns True exactly when the strategy gives the same
  number of dice as at \<open>(0, 0)\<close> in every state below the goal.
\<close>

theorem is_always_roll_iff:
  "is_always_roll strategy goal \<longleftrightarrow> (\<forall>s t. s < goal \<and> t < goal \<longrightarrow> strategy s t = strategy 0 0)"
  by (auto simp: is_always_roll_def always_roll_rows_iff)

theorem is_always_roll_iff_witness:
  "\<not> is_always_roll catch_up 100 \<and> is_always_roll always_roll_5 100"
proof -
  have "catch_up 0 1 \<noteq> catch_up 0 0" by (simp add: catch_up_def)
  then have "\<not> (\<forall>s t. s < 100 \<and> t < 100 \<longrightarrow> catch_up s t = catch_up 0 0)"
    by (metis zero_less_numeral one_less_numeral_iff semiring_norm(76))
  then have no: "\<not> is_always_roll catch_up 100" using is_always_roll_iff [of catch_up 100] by simp
  have yes: "is_always_roll always_roll_5 100"
    using is_always_roll_iff [of always_roll_5 100] by (simp add: always_roll_5_def)
  from no yes show ?thesis by blast
qed



section \<open>The game as a transition system\<close>

inductive_cases play_stepE: "play_step strategy0 strategy1 update dice goal st st'"

text \<open>A transition is one iteration of \<open>play_loop\<close>: the loop's result is kept.\<close>

lemma play_step_loop:
  assumes "play_step strategy0 strategy1 update dice goal (w, a, b, ds) (w', a', b', ds')"
  shows "play_loop strategy0 strategy1 update dice goal w a b ds =
         play_loop strategy0 strategy1 update dice goal w' a' b' ds'"
  using assms
proof (cases rule: play_step.cases)
  case turn0
  then show ?thesis by (simp add: play_loop.simps [of strategy0 strategy1 update dice goal 0 a b ds])
next
  case turn1
  then show ?thesis by (simp add: play_loop.simps [of strategy0 strategy1 update dice goal "Suc 0" a b ds])
qed

lemma square_update_mono: "square_update n ps os dice ds = Inr (ps', ds') \<Longrightarrow> ps \<le> ps'"
  using square_add_ge by (auto simp: square_update_def split: sum.splits prod.splits) (metis le_add1 order_trans)

lemma square_update_grows:
  assumes pd: "positive_dice dice" and u: "square_update n ps os dice ds = Inr (ps', ds')"
  shows "ps < ps'"
proof (cases "n \<le> 10")
  case True
  from take_turn_positive [OF pd True, of os ds] obtain p ds1
    where "take_turn n os dice ds = Inr (p, ds1)" and "1 \<le> p" by blast
  with u square_add_ge [of ps p] show ?thesis by (simp add: square_update_def)
next
  case False
  with u show ?thesis by (simp add: square_update_def take_turn_def)
qed

lemma play_step_decreases:
  assumes "positive_dice dice"
    and "play_step strategy0 strategy1 square_update dice goal (w, a, b, ds) (w', a', b', ds')"
  shows "(goal - a') + (goal - b') < (goal - a) + (goal - b)"
  using assms(2)
proof (cases rule: play_step.cases)
  case turn0
  with square_update_grows [OF assms(1)] have "a < a'" by blast
  with turn0 show ?thesis by arith
next
  case turn1
  with square_update_grows [OF assms(1)] have "b < b'" by blast
  with turn1 show ?thesis by arith
qed

lemma one_turn_witness:
  "play_step always_roll_5 catch_up square_update (test_dice [4, 2, 5, 6]) 100 (0, 0, 0, 3) (1, 21, 0, 0)"
proof (rule turn0)
  show "square_update (always_roll_5 0 0) 0 0 (test_dice [4, 2, 5, 6]) 3 = Inr (21, 0)" by code_simp
qed simp_all

section \<open>Properties of the game loop\<close>

text \<open>
  C32. Safety of the game loop with Square Swine: in every state the loop
  reaches, the turn variable is 0 or 1 (the assert of line 143 never fails),
  neither score has decreased, and the game's result is the loop's result from
  that state.
\<close>

theorem play_reachable_safe:
  "(play_step strategy0 strategy1 square_update dice goal)\<^sup>*\<^sup>* (0, score0, score1, ds) st \<Longrightarrow>
   fst st \<le> 1 \<and> score0 \<le> fst (snd st) \<and> score1 \<le> fst (snd (snd st)) \<and>
   play strategy0 strategy1 square_update score0 score1 dice goal ds =
     play_loop strategy0 strategy1 square_update dice goal (fst st) (fst (snd st)) (fst (snd (snd st)))
       (snd (snd (snd st)))"
proof (induction rule: rtranclp_induct)
  case base
  then show ?case by (simp add: play_def)
next
  case (step y z)
  obtain w a b d where y: "y = (w, a, b, d)" by (cases y) auto
  obtain w' a' b' d' where z: "z = (w', a', b', d')" by (cases z) auto
  from step.hyps(2) y z have st: "play_step strategy0 strategy1 square_update dice goal (w, a, b, d) (w', a', b', d')"
    by simp
  have "w' \<le> 1 \<and> a \<le> a' \<and> b \<le> b'"
    using st by (rule play_stepE) (auto dest: square_update_mono)
  with step.IH play_step_loop [OF st] y z show ?case by auto
qed

theorem play_reachable_safe_witness:
  "(play_step always_roll_5 catch_up square_update (test_dice [4, 2, 5, 6]) 100)\<^sup>*\<^sup>* (0, 0, 0, 3) (1, 21, 0, 0) \<and>
   play always_roll_5 catch_up square_update 0 0 (test_dice [4, 2, 5, 6]) 100 3 =
     play_loop always_roll_5 catch_up square_update (test_dice [4, 2, 5, 6]) 100 1 21 0 0"
proof -
  have r: "(play_step always_roll_5 catch_up square_update (test_dice [4, 2, 5, 6]) 100)\<^sup>*\<^sup>* (0, 0, 0, 3) (1, 21, 0, 0)"
    using one_turn_witness by (rule r_into_rtranclp)
  from r play_reachable_safe [OF r] show ?thesis by simp
qed

text \<open>
  C33. Termination of the game loop, with a bound: with a dice whose outcomes
  are positive, every run of the loop from scores \<open>(a, b)\<close> makes at most
  \<open>(goal - a) + (goal - b)\<close> turns (at most 200 from the start).
\<close>

theorem play_turns_bound:
  "positive_dice dice \<Longrightarrow>
   (play_step strategy0 strategy1 square_update dice goal ^^ k) (w, a, b, ds) st \<Longrightarrow>
   k \<le> (goal - a) + (goal - b)"
proof (induction k arbitrary: w a b ds)
  case (Suc k)
  from Suc.prems(2) obtain y where first: "play_step strategy0 strategy1 square_update dice goal (w, a, b, ds) y"
    and rest: "(play_step strategy0 strategy1 square_update dice goal ^^ k) y st"
    by (metis relpowp_Suc_D2)
  obtain w1 a1 b1 d1 where y: "y = (w1, a1, b1, d1)" by (cases y) auto
  from Suc.IH [OF Suc.prems(1)] rest y have "k \<le> (goal - a1) + (goal - b1)" by simp
  moreover from play_step_decreases [OF Suc.prems(1)] first y
  have "(goal - a1) + (goal - b1) < (goal - a) + (goal - b)" by simp
  ultimately show ?case by simp
qed simp

theorem play_turns_bound_witness:
  "(play_step always_roll_5 catch_up square_update (test_dice [4, 2, 5, 6]) 100 ^^ 1) (0, 0, 0, 3) (1, 21, 0, 0) \<and>
   (1::nat) \<le> (100 - 0) + (100 - 0)"
proof -
  have d: "positive_dice (test_dice [4, 2, 5, 6])" by (rule test_dice_positive) simp_all
  have r: "(play_step always_roll_5 catch_up square_update (test_dice [4, 2, 5, 6]) 100 ^^ 1) (0, 0, 0, 3) (1, 21, 0, 0)"
    unfolding relpowp_1 by (rule one_turn_witness)
  from r play_turns_bound [OF d r] show ?thesis by simp
qed

end
