(* ===== verification/Distribution.thy ===== *)
theory Distribution
  imports Hog_Prelude
begin

text \<open>
  The exact outcome distribution of one turn rolling \<open>n\<close> dice:
  \<^verbatim>\<open>dice_result\<close> (\<^verbatim>\<open>src/hog.py\<close>, lines 328--356). The code keeps a distribution
  as two parallel lists \<^verbatim>\<open>[outcomes, weights]\<close>; it is built from the
  distribution for \<open>n - 1\<close> dice by adding one die to every outcome under the
  bust rule, merging equal outcomes, normalising by the total weight and
  dropping the entries whose probability is not above \<^verbatim>\<open>prob_cutoff\<close>. The
  cutoff, a global of the module, is the parameter \<open>prob_cutoff\<close> here (0: no
  pruning, as \<^verbatim>\<open>if prob_cutoff:\<close> is false for 0).
\<close>

type_synonym dist = "nat list \<times> rat list"

section \<open>The code\<close>

text \<open>\<^verbatim>\<open>range(1,7)\<close>, the faces of a six-sided die.\<close>

definition faces :: "nat list" where
  "faces = [1..<7]"

text \<open>Line 336: a bust anywhere makes the turn's outcome 1.\<close>

definition bust_add :: "nat \<Rightarrow> nat \<Rightarrow> nat" where
  "bust_add prev_sum roll = (if prev_sum = 1 \<or> roll = 1 then 1 else prev_sum + roll)"

text \<open>Python's \<^verbatim>\<open>list.index\<close>, used only after a membership test.\<close>

fun py_index :: "'a list \<Rightarrow> 'a \<Rightarrow> nat" where
  "py_index [] x = 0"
| "py_index (y # ys) x = (if y = x then 0 else Suc (py_index ys x))"

text \<open>Lines 337--341: merge one weighted outcome into the accumulated result.\<close>

definition add_weight :: "nat \<Rightarrow> rat \<Rightarrow> dist \<Rightarrow> dist" where
  "add_weight new_roll w d =
     (case d of (vs, ws) \<Rightarrow>
        if new_roll \<in> set vs
        then (vs, ws[py_index vs new_roll := ws ! py_index vs new_roll + w])
        else (vs @ [new_roll], ws @ [w]))"

text \<open>Lines 335--341: \<^verbatim>\<open>for roll in range(1,7)\<close> for one previous outcome.\<close>

fun roll_faces :: "nat \<Rightarrow> rat \<Rightarrow> nat list \<Rightarrow> dist \<Rightarrow> dist" where
  "roll_faces prev_sum p [] d = d"
| "roll_faces prev_sum p (roll # rolls) d = roll_faces prev_sum p rolls (add_weight (bust_add prev_sum roll) p d)"

text \<open>
  Lines 334--341: \<^verbatim>\<open>for i, sums in enumerate(arr[0])\<close>, reading the weight
  \<^verbatim>\<open>arr[1][i]\<close>. The two lists of a result always have the same length
  (\<open>dice_result_wf\<close> below), so walking them in step is the loop.
\<close>

fun expand_dist :: "nat list \<Rightarrow> rat list \<Rightarrow> dist \<Rightarrow> dist" where
  "expand_dist (s # ss) (p # ps) d = expand_dist ss ps (roll_faces s p faces d)"
| "expand_dist _ _ d = d"

text \<open>Lines 343--344: divide every weight by the total.\<close>

definition normalize_dist :: "dist \<Rightarrow> dist" where
  "normalize_dist d = (case d of (vs, ws) \<Rightarrow> (vs, map (\<lambda>w. w / sum_list ws) ws))"

text \<open>Lines 346--354: keep the entries whose probability is above the cutoff.\<close>

definition prune_dist :: "rat \<Rightarrow> dist \<Rightarrow> dist" where
  "prune_dist prob_cutoff d =
     (if prob_cutoff \<noteq> 0
      then (case d of (vs, ws) \<Rightarrow>
              let kept = filter (\<lambda>(v, w). prob_cutoff < w) (zip vs ws)
              in (map fst kept, map snd kept))
      else d)"

text \<open>
  Lines 328--356. For \<open>n = 0\<close> the code recurses on \<open>-1, -2, \<dots>\<close> until Python
  raises \<^verbatim>\<open>RecursionError\<close>.
\<close>

fun dice_result :: "rat \<Rightarrow> nat \<Rightarrow> dist py_result" where
  "dice_result prob_cutoff 0 = Inl RecursionError"
| "dice_result prob_cutoff (Suc 0) =
     Inr (prune_dist prob_cutoff (normalize_dist ([1, 2, 3, 4, 5, 6], replicate 6 1)))"
| "dice_result prob_cutoff (Suc (Suc n)) =
     ebind (dice_result prob_cutoff (Suc n))
       (\<lambda>(ss, ps). Inr (prune_dist prob_cutoff (normalize_dist (expand_dist ss ps ([], [])))))"

section \<open>Reading a distribution\<close>

text \<open>The probability the code's lists give an outcome (\<^verbatim>\<open>result[1][result[0].index(v)]\<close>).\<close>

definition prob_of :: "dist \<Rightarrow> nat \<Rightarrow> rat" where
  "prob_of d v = (if v \<in> set (fst d) then snd d ! py_index (fst d) v else 0)"

text \<open>The expectation of \<open>g\<close> over the outcomes, weighted as the lists say.\<close>

definition expect :: "dist \<Rightarrow> (nat \<Rightarrow> rat) \<Rightarrow> rat" where
  "expect d g = wsum (fst d) (snd d) g"

section \<open>The abstract specification: all sequences of rolls\<close>

text \<open>
  The outcome of one turn whose dice show \<open>rs\<close> (the docstring of
  \<^verbatim>\<open>roll_dice\<close>, line 18): the sum, unless some die shows 1.
\<close>

definition bust_outcome :: "nat list \<Rightarrow> nat" where
  "bust_outcome rs = (if 1 \<in> set rs then 1 else sum_list rs)"

text \<open>All \<open>6\<^sup>n\<close> equally likely sequences of \<open>n\<close> fair dice, the last die last.\<close>

fun all_rolls :: "nat \<Rightarrow> nat list list" where
  "all_rolls 0 = [[]]"
| "all_rolls (Suc n) = concat (map (\<lambda>rs. map (\<lambda>r. rs @ [r]) faces) (all_rolls n))"

text \<open>The exact expectation of \<open>g\<close> over the outcome of \<open>n\<close> fair dice.\<close>

definition roll_expect :: "nat \<Rightarrow> (nat \<Rightarrow> rat) \<Rightarrow> rat" where
  "roll_expect n g = sum_list (map (\<lambda>rs. g (bust_outcome rs)) (all_rolls n)) / 6 ^ n"

text \<open>The exact probability that \<open>n\<close> fair dice give outcome \<open>v\<close>.\<close>

definition roll_prob :: "nat \<Rightarrow> nat \<Rightarrow> rat" where
  "roll_prob n v = of_nat (length (filter (\<lambda>rs. bust_outcome rs = v) (all_rolls n))) / 6 ^ n"

text \<open>The indicator of a bust outcome.\<close>

definition bust_ind :: "nat \<Rightarrow> rat" where
  "bust_ind s = (if s = 1 then 1 else 0)"

section \<open>Invariants of the code's lists\<close>

text \<open>
  The two lists have the same length; the weights are positive; and, for the
  result for \<open>n\<close> dice, the outcomes are distinct, between 1 and \<open>6 n\<close>, and
  their probabilities add up to at most 1.
\<close>

definition wf_dist :: "dist \<Rightarrow> bool" where
  "wf_dist d \<longleftrightarrow> length (fst d) = length (snd d)"

definition pos_weights :: "dist \<Rightarrow> bool" where
  "pos_weights d \<longleftrightarrow> (\<forall>w \<in> set (snd d). 0 < w)"

definition valid_dist :: "nat \<Rightarrow> dist \<Rightarrow> bool" where
  "valid_dist n d \<longleftrightarrow> wf_dist d \<and> distinct (fst d) \<and> pos_weights d \<and> sum_list (snd d) \<le> 1 \<and>
     (\<forall>v \<in> set (fst d). 1 \<le> v \<and> v \<le> 6 * n)"

section \<open>The loops: lengths and weighted sums\<close>

lemma expect_cong [fundef_cong]:
  "d = d' \<Longrightarrow> (\<And>v. v \<in> set (fst d') \<Longrightarrow> g v = g' v) \<Longrightarrow> expect d g = expect d' g'"
  unfolding expect_def by (rule wsum_cong) simp_all

lemma py_index_nth: "x \<in> set xs \<Longrightarrow> py_index xs x < length xs \<and> xs ! py_index xs x = x"
  by (induction xs) auto

lemma wsum_update:
  "length vs = length ws \<Longrightarrow> i < length vs \<Longrightarrow>
   wsum vs (ws[i := ws ! i + w]) g = wsum vs ws g + w * g (vs ! i)"
proof (induction vs ws arbitrary: i rule: list_induct2)
  case (Cons v vs u us)
  then show ?case by (cases i) (auto simp: algebra_simps)
qed simp

lemma add_weight_wf: "wf_dist d \<Longrightarrow> wf_dist (add_weight v w d)"
  by (auto simp: wf_dist_def add_weight_def split: prod.splits)

lemma expect_add_weight:
  assumes "wf_dist d"
  shows "expect (add_weight v w d) g = expect d g + w * g v"
proof (cases d)
  case (Pair vs ws)
  show ?thesis
  proof (cases "v \<in> set vs")
    case True
    then have "py_index vs v < length vs" and "vs ! py_index vs v = v"
      by (simp_all add: py_index_nth)
    with True Pair assms show ?thesis
      by (simp add: add_weight_def expect_def wf_dist_def wsum_update)
  next
    case False
    with Pair assms show ?thesis
      by (simp add: add_weight_def expect_def wf_dist_def wsum_append)
  qed
qed

lemma roll_faces_wf: "wf_dist d \<Longrightarrow> wf_dist (roll_faces s p rs d)"
  by (induction rs arbitrary: d) (auto simp: add_weight_wf)

lemma expect_roll_faces:
  "wf_dist d \<Longrightarrow>
   expect (roll_faces s p rs d) g = expect d g + p * sum_list (map (\<lambda>r. g (bust_add s r)) rs)"
  by (induction rs arbitrary: d) (auto simp: expect_add_weight add_weight_wf algebra_simps)

lemma expand_dist_wf: "wf_dist d \<Longrightarrow> wf_dist (expand_dist ss ps d)"
  by (induction ss ps d rule: expand_dist.induct) (auto simp: roll_faces_wf)

lemma expect_expand_dist:
  "wf_dist d \<Longrightarrow>
   expect (expand_dist ss ps d) g =
     expect d g + wsum ss ps (\<lambda>s. sum_list (map (\<lambda>r. g (bust_add s r)) faces))"
  by (induction ss ps d rule: expand_dist.induct) (auto simp: expect_roll_faces roll_faces_wf)

lemma normalize_wf: "wf_dist d \<Longrightarrow> wf_dist (normalize_dist d)"
  by (auto simp: wf_dist_def normalize_dist_def split: prod.splits)

lemma expect_normalize:
  "expect (normalize_dist d) g = expect d g / sum_list (snd d)"
proof -
  have "wsum vs (map (\<lambda>w. w / t) ws) g = wsum vs ws g / t" for vs ws and t :: rat
    using wsum_scale_weights [of vs "1 / t" ws g] by (simp add: field_simps)
  then show ?thesis by (auto simp: expect_def normalize_dist_def split: prod.splits)
qed

lemma prune_wf: "wf_dist d \<Longrightarrow> wf_dist (prune_dist c d)"
  by (auto simp: wf_dist_def prune_dist_def Let_def split: prod.splits)

lemma prune_zero [simp]: "prune_dist 0 d = d"
  by (simp add: prune_dist_def)

lemma expect_one: "wf_dist d \<Longrightarrow> expect d (\<lambda>_. 1) = sum_list (snd d)"
  by (simp add: expect_def wf_dist_def wsum_one)

lemma wf_dist_empty [simp]: "wf_dist ([], [])"
  by (simp add: wf_dist_def)

lemma dice_result_wf: "dice_result c n = Inr d \<Longrightarrow> wf_dist d"
proof (induction c n arbitrary: d rule: dice_result.induct)
  case (2 c)
  then show ?case by (auto simp: wf_dist_def normalize_dist_def prune_wf [unfolded wf_dist_def])
next
  case (3 c n)
  then show ?case
    by (auto intro!: prune_wf normalize_wf expand_dist_wf split: prod.splits)
qed simp

section \<open>Refinement: the lists hold the exact distribution\<close>

lemma length_all_rolls: "length (all_rolls n) = 6 ^ n"
  by (induction n) (simp_all add: length_concat o_def sum_list_triv faces_def)

lemma all_rolls_set: "rs \<in> set (all_rolls n) \<Longrightarrow> length rs = n \<and> set rs \<subseteq> set faces"
  by (induction n arbitrary: rs) (simp, fastforce)

lemma bust_outcome_snoc:
  assumes "rs \<noteq> []" and "set rs \<subseteq> set faces" and "r \<in> set faces"
  shows "bust_outcome (rs @ [r]) = bust_add (bust_outcome rs) r"
proof (cases "1 \<in> set rs")
  case True
  then show ?thesis by (simp add: bust_outcome_def bust_add_def)
next
  case False
  from assms(1) obtain x where x: "x \<in> set rs" by (cases rs) auto
  with False assms(2) have "x \<in> {1..<7}" and "x \<noteq> 1" by (auto simp: faces_def)
  then have "2 \<le> x" by simp
  also from x have "x \<le> sum_list rs" by (simp add: member_le_sum_list)
  finally have "sum_list rs \<noteq> 1" by simp
  with False show ?thesis by (simp add: bust_outcome_def bust_add_def)
qed

lemma roll_expect_Suc:
  assumes "0 < n"
  shows "roll_expect (Suc n) g =
           roll_expect n (\<lambda>s. sum_list (map (\<lambda>r. g (bust_add s r)) faces)) / 6"
proof -
  have "sum_list (map (\<lambda>rs. g (bust_outcome rs)) (all_rolls (Suc n))) =
        sum_list (map (\<lambda>rs. sum_list (map (\<lambda>r. g (bust_outcome (rs @ [r]))) faces)) (all_rolls n))"
    by (simp add: map_concat sum_list_concat_map o_def)
  also have "\<dots> = sum_list (map (\<lambda>rs. sum_list (map (\<lambda>r. g (bust_add (bust_outcome rs) r)) faces)) (all_rolls n))"
  proof (rule arg_cong [where f = sum_list], rule map_cong [OF refl])
    fix rs assume rs: "rs \<in> set (all_rolls n)"
    with assms all_rolls_set have "rs \<noteq> []" and "set rs \<subseteq> set faces" by fastforce+
    then show "sum_list (map (\<lambda>r. g (bust_outcome (rs @ [r]))) faces) =
               sum_list (map (\<lambda>r. g (bust_add (bust_outcome rs) r)) faces)"
      by (simp add: bust_outcome_snoc cong: map_cong)
  qed
  finally show ?thesis by (simp add: roll_expect_def)
qed

lemma expect_wsum_level:
  assumes wf: "wf_dist (ss, ps)" and n: "0 < n"
    and IH: "\<And>h. wsum ss ps h = roll_expect n h"
  shows "expect (expand_dist ss ps ([], [])) g = 6 * roll_expect (Suc n) g"
  using expect_expand_dist [OF wf_dist_empty, of ss ps g] IH roll_expect_Suc [OF n, of g]
  by (simp add: expect_def)

lemma roll_expect_one: "roll_expect n (\<lambda>_. 1) = 1"
  by (simp add: roll_expect_def length_all_rolls sum_list_triv)

lemma dice_result_exact:
  "c = 0 \<Longrightarrow> dice_result c n = Inr d \<Longrightarrow> expect d g = roll_expect n g"
proof (induction c n arbitrary: d g rule: dice_result.induct)
  case (2 c)
  then have "d = ([1, 2, 3, 4, 5, 6], replicate 6 (1 / 6))"
    by (auto simp: normalize_dist_def sum_list_replicate)
  then show ?case
    by (simp add: expect_def roll_expect_def faces_def bust_outcome_def upt_rec numeral_eq_Suc algebra_simps)
next
  case (3 c n)
  from "3.prems" obtain ss ps where prev: "dice_result c (Suc n) = Inr (ss, ps)"
    and d: "d = normalize_dist (expand_dist ss ps ([], []))" by (auto split: prod.splits)
  have wf: "wf_dist (ss, ps)" using prev by (rule dice_result_wf)
  have IH: "\<And>h. wsum ss ps h = roll_expect (Suc n) h"
    using "3.IH" [OF "3.prems"(1) prev] by (simp add: expect_def)
  have raw: "\<And>h. expect (expand_dist ss ps ([], [])) h = 6 * roll_expect (Suc (Suc n)) h"
    by (rule expect_wsum_level [OF wf _ IH]) simp
  have "sum_list (snd (expand_dist ss ps ([], []))) = 6"
    using raw [of "\<lambda>_. 1"] expect_one [OF expand_dist_wf [OF wf_dist_empty]]
    by (simp add: roll_expect_one)
  with raw d show ?case by (simp add: expect_normalize)
qed simp

section \<open>The invariant under every cutoff\<close>

lemma add_weight_set: "set (fst (add_weight v w d)) = insert v (set (fst d))"
  by (auto simp: add_weight_def split: prod.splits)

lemma add_weight_distinct: "distinct (fst d) \<Longrightarrow> distinct (fst (add_weight v w d))"
  by (auto simp: add_weight_def split: prod.splits)

lemma add_weight_pos:
  assumes pos: "pos_weights d" and w: "0 < w"
  shows "pos_weights (add_weight v w d)"
proof (cases d)
  case (Pair vs ws)
  let ?i = "py_index vs v"
  have "0 < x" if x: "x \<in> set (ws[?i := ws ! ?i + w])" for x
  proof (cases "?i < length ws")
    case True
    with pos Pair have "0 < ws ! ?i" by (simp add: pos_weights_def)
    with w have "0 < ws ! ?i + w" by simp
    with x pos Pair show ?thesis
      by (auto simp: pos_weights_def dest!: set_update_subset_insert [THEN subsetD])
  next
    case False
    with x pos Pair show ?thesis by (simp add: pos_weights_def list_update_beyond)
  qed
  with pos w Pair show ?thesis by (auto simp: pos_weights_def add_weight_def)
qed

lemma roll_faces_set:
  "set (fst (roll_faces s p rs d)) = set (fst d) \<union> bust_add s ` set rs"
  by (induction rs arbitrary: d) (auto simp: add_weight_set)

lemma roll_faces_distinct: "distinct (fst d) \<Longrightarrow> distinct (fst (roll_faces s p rs d))"
  by (induction rs arbitrary: d) (auto simp: add_weight_distinct)

lemma roll_faces_pos: "pos_weights d \<Longrightarrow> 0 < p \<Longrightarrow> pos_weights (roll_faces s p rs d)"
  by (induction rs arbitrary: d) (auto simp: add_weight_pos)

lemma expand_dist_set:
  "set (fst (expand_dist ss ps d)) \<subseteq> set (fst d) \<union> (\<Union>s \<in> set ss. bust_add s ` set faces)"
  by (induction ss ps d rule: expand_dist.induct) (auto simp: roll_faces_set)

lemma expand_dist_distinct: "distinct (fst d) \<Longrightarrow> distinct (fst (expand_dist ss ps d))"
  by (induction ss ps d rule: expand_dist.induct) (auto simp: roll_faces_distinct)

lemma expand_dist_pos:
  "pos_weights d \<Longrightarrow> \<forall>p \<in> set ps. 0 < p \<Longrightarrow> pos_weights (expand_dist ss ps d)"
  by (induction ss ps d rule: expand_dist.induct) (auto simp: roll_faces_pos)

lemma normalize_fst [simp]: "fst (normalize_dist d) = fst d"
  by (simp add: normalize_dist_def split: prod.splits)

lemma normalize_pos: "pos_weights d \<Longrightarrow> pos_weights (normalize_dist d)"
proof (cases d)
  case (Pair vs ws)
  assume pos: "pos_weights d"
  show ?thesis
  proof (cases "ws = []")
    case False
    with pos Pair have "0 < sum_list ws"
      by (auto simp: pos_weights_def intro!: sum_list_pos)
    with pos Pair show ?thesis by (auto simp: pos_weights_def normalize_dist_def)
  qed (simp add: Pair pos_weights_def normalize_dist_def)
qed

lemma normalize_sum:
  assumes "pos_weights d" and "snd d \<noteq> []"
  shows "sum_list (snd (normalize_dist d)) = 1"
proof -
  have "0 < sum_list (snd d)"
    using assms by (intro sum_list_pos) (simp_all add: pos_weights_def)
  then show ?thesis by (cases d) (simp add: normalize_dist_def sum_list_divide)
qed

lemma normalize_sum_le:
  assumes pos: "pos_weights d"
  shows "sum_list (snd (normalize_dist d)) \<le> 1"
proof (cases "snd d = []")
  case True
  then show ?thesis by (cases d) (simp add: normalize_dist_def)
qed (simp add: normalize_sum [OF pos])

lemma prune_set: "set (fst (prune_dist c d)) \<subseteq> set (fst d)"
  by (auto simp: prune_dist_def Let_def dest: set_zip_leftD split: prod.splits)

lemma prune_distinct: "wf_dist d \<Longrightarrow> distinct (fst d) \<Longrightarrow> distinct (fst (prune_dist c d))"
  by (auto simp: prune_dist_def Let_def wf_dist_def distinct_map_filter split: prod.splits)

lemma prune_pos: "pos_weights d \<Longrightarrow> pos_weights (prune_dist c d)"
  by (auto simp: prune_dist_def Let_def pos_weights_def dest: set_zip_rightD split: prod.splits)

lemma prune_sum_le: "pos_weights d \<Longrightarrow> sum_list (snd (prune_dist c d)) \<le> sum_list (snd d)"
proof -
  have "\<forall>w \<in> set ws. 0 \<le> w \<Longrightarrow> sum_list (map snd (filter P (zip vs ws))) \<le> sum_list ws"
    for P and vs :: "nat list" and ws :: "rat list"
    by (induction vs ws rule: list_induct2') (auto intro: add_increasing add_nonneg_nonneg sum_list_nonneg)
  then show "pos_weights d \<Longrightarrow> ?thesis"
    by (cases d) (auto simp: prune_dist_def Let_def pos_weights_def less_imp_le)
qed

lemma finish_valid:
  assumes wf: "wf_dist d" and dist: "distinct (fst d)" and pos: "pos_weights d"
    and bnd: "\<forall>v \<in> set (fst d). 1 \<le> v \<and> v \<le> 6 * n"
  shows "valid_dist n (prune_dist c (normalize_dist d))"
proof -
  have w: "wf_dist (normalize_dist d)" using wf by (rule normalize_wf)
  have p: "pos_weights (normalize_dist d)" using pos by (rule normalize_pos)
  have "sum_list (snd (prune_dist c (normalize_dist d))) \<le> 1"
    using prune_sum_le [OF p, of c] normalize_sum_le [OF pos] by linarith
  moreover have "set (fst (prune_dist c (normalize_dist d))) \<subseteq> set (fst d)"
    using prune_set [of c "normalize_dist d"] by simp
  ultimately show ?thesis
    using bnd w p dist by (auto simp: valid_dist_def prune_wf prune_pos prune_distinct)
qed

lemma bust_add_bounds: "r \<in> set faces \<Longrightarrow> 1 \<le> bust_add s r \<and> bust_add s r \<le> s + 6"
  by (auto simp: bust_add_def faces_def)

lemma expand_dist_bounds:
  assumes "\<forall>s \<in> set ss. s \<le> 6 * n"
  shows "\<forall>v \<in> set (fst (expand_dist ss ps ([], []))). 1 \<le> v \<and> v \<le> 6 * Suc n"
proof
  fix v assume "v \<in> set (fst (expand_dist ss ps ([], [])))"
  with expand_dist_set obtain s r where "s \<in> set ss" "r \<in> set faces" "v = bust_add s r"
    by fastforce
  with assms bust_add_bounds [of r s] show "1 \<le> v \<and> v \<le> 6 * Suc n" by auto
qed

lemma dice_result_valid: "dice_result c n = Inr d \<Longrightarrow> valid_dist n d"
proof (induction c n arbitrary: d rule: dice_result.induct)
  case (2 c)
  then show ?case
    by (auto intro!: finish_valid simp: wf_dist_def pos_weights_def)
next
  case (3 c n)
  from "3.prems" obtain ss ps where prev: "dice_result c (Suc n) = Inr (ss, ps)"
    and d: "d = prune_dist c (normalize_dist (expand_dist ss ps ([], [])))"
    by (auto split: prod.splits)
  from "3.IH" [OF prev] have v: "valid_dist (Suc n) (ss, ps)" .
  then have "\<forall>p \<in> set ps. 0 < p" and "\<forall>s \<in> set ss. s \<le> 6 * Suc n"
    by (auto simp: valid_dist_def pos_weights_def)
  then show ?case unfolding d
    by (intro finish_valid expand_dist_wf expand_dist_distinct expand_dist_pos expand_dist_bounds)
       (simp_all add: pos_weights_def)
qed simp

lemma dice_result_total: "0 < n \<Longrightarrow> \<exists>d. dice_result c n = Inr d"
proof (induction c n rule: dice_result.induct)
  case (3 c n)
  then obtain d where "dice_result c (Suc n) = Inr d" by blast
  then show ?case by (cases d) simp
qed simp_all

section \<open>Reading single outcomes\<close>

lemma wsum_indicator:
  "length vs = length ws \<Longrightarrow> distinct vs \<Longrightarrow>
   wsum vs ws (\<lambda>x. if x = v then 1 else 0) = (if v \<in> set vs then ws ! py_index vs v else 0)"
  by (induction vs ws rule: list_induct2) auto

lemma prob_of_expect:
  "wf_dist d \<Longrightarrow> distinct (fst d) \<Longrightarrow> prob_of d v = expect d (\<lambda>x. if x = v then 1 else 0)"
  by (simp add: prob_of_def expect_def wf_dist_def wsum_indicator)

lemma sum_list_indicator:
  "sum_list (map (\<lambda>x. if P x then 1 else 0) xs) = (of_nat (length (filter P xs)) :: rat)"
  by (induction xs) simp_all

lemma roll_prob_expect: "roll_prob n v = roll_expect n (\<lambda>x. if x = v then 1 else 0)"
  by (simp add: roll_prob_def roll_expect_def sum_list_indicator [where P = "\<lambda>rs. bust_outcome rs = v"] o_def)

lemma prune_above: "c \<noteq> 0 \<Longrightarrow> w \<in> set (snd (prune_dist c d)) \<Longrightarrow> c < w"
  by (auto simp: prune_dist_def Let_def split: prod.splits)

lemma dice_result_above_cutoff:
  assumes "dice_result c n = Inr d" and "c \<noteq> 0" and "w \<in> set (snd d)"
  shows "c < w"
proof (cases n)
  case (Suc m)
  with assms show ?thesis
    by (cases m) (auto split: prod.splits dest: prune_above)
qed (use assms in simp)

lemma dice_result_one_eq:
  "0 \<le> c \<Longrightarrow> c < 1/6 \<Longrightarrow> dice_result c 1 = Inr ([1, 2, 3, 4, 5, 6], replicate 6 (1/6))"
  by (simp add: normalize_dist_def prune_dist_def sum_list_replicate numeral_eq_Suc)

section \<open>The probability of a bust\<close>

lemma roll_expect_add: "roll_expect n (\<lambda>s. f s + g s) = roll_expect n f + roll_expect n g"
  by (simp add: roll_expect_def sum_list_addf add_divide_distrib)

lemma roll_expect_scale: "roll_expect n (\<lambda>s. a * f s) = a * roll_expect n f"
  by (simp add: roll_expect_def sum_list_const_mult)

lemma roll_expect_const: "roll_expect n (\<lambda>_. a) = a"
  using roll_expect_scale [of n a "\<lambda>_. 1"] roll_expect_one [of n] by simp

lemma faces_list: "faces = [1, 2, 3, 4, 5, 6]"
  by (simp add: faces_def upt_rec)

lemma faces_bust_ind: "sum_list (map (\<lambda>r. bust_ind (bust_add s r)) faces) = 1 + 5 * bust_ind s"
  by (cases "s = 0") (simp_all add: faces_list bust_add_def bust_ind_def)

lemma roll_expect_one_die: "roll_expect (Suc 0) g = sum_list (map (\<lambda>r. g (bust_outcome [r])) faces) / 6"
  by (simp add: roll_expect_def o_def)

lemma roll_expect_bust:
  "0 < n \<Longrightarrow> roll_expect n bust_ind = 1 - (5/6) ^ n"
proof (induction n rule: nat_induct_non_zero)
  case 1
  show ?case by (simp add: roll_expect_one_die faces_list bust_outcome_def bust_ind_def)
next
  case (Suc n)
  have "roll_expect (Suc n) bust_ind = roll_expect n (\<lambda>s. 1 + 5 * bust_ind s) / 6"
    using roll_expect_Suc [OF Suc.hyps(1), of bust_ind] by (simp add: faces_bust_ind)
  also have "\<dots> = (1 + 5 * (1 - (5/6) ^ n)) / 6"
    by (simp only: roll_expect_add roll_expect_scale roll_expect_const Suc.IH)
  finally show ?case by (simp add: field_simps)
qed

section \<open>The reachable outcomes\<close>

text \<open>Without pruning, every outcome of the previous level is walked.\<close>

lemma expand_dist_set_eq:
  "length ss = length ps \<Longrightarrow>
   set (fst (expand_dist ss ps d)) = set (fst d) \<union> (\<Union>s \<in> set ss. bust_add s ` set faces)"
  by (induction ss ps d rule: expand_dist.induct) (auto simp: roll_faces_set)

text \<open>One more die turns the outcomes \<open>1, 2n..6n\<close> into \<open>1, 2(n+1)..6(n+1)\<close>.\<close>

lemma bust_step_subset:
  assumes "S \<subseteq> insert 1 {2 * n..6 * n}"
  shows "(\<Union>s \<in> S. bust_add s ` set faces) \<subseteq> insert 1 {2 * Suc n..6 * Suc n}"
  using assms by (auto simp: bust_add_def faces_def)

lemma bust_step_eq:
  assumes "0 < n"
  shows "(\<Union>s \<in> insert 1 {2 * n..6 * n}. bust_add s ` set faces) = insert 1 {2 * Suc n..6 * Suc n}"
proof
  show "(\<Union>s \<in> insert 1 {2 * n..6 * n}. bust_add s ` set faces) \<subseteq> insert 1 {2 * Suc n..6 * Suc n}"
    by (rule bust_step_subset) simp
next
  show "insert 1 {2 * Suc n..6 * Suc n} \<subseteq> (\<Union>s \<in> insert 1 {2 * n..6 * n}. bust_add s ` set faces)"
  proof
    fix v
    assume v: "v \<in> insert 1 {2 * Suc n..6 * Suc n}"
    show "v \<in> (\<Union>s \<in> insert 1 {2 * n..6 * n}. bust_add s ` set faces)"
    proof (cases "v = 1")
      case True
      have "bust_add 1 1 = 1" by (simp add: bust_add_def)
      with True show ?thesis by (force simp: faces_def)
    next
      case False
      with v have lo: "2 * n + 2 \<le> v" and hi: "v \<le> 6 * n + 6" by auto
      define r where "r = (if v \<le> 6 * n + 2 then 2 else v - 6 * n)"
      have r: "2 \<le> r" "r \<le> 6" using hi by (auto simp: r_def)
      have s: "2 * n \<le> v - r" "v - r \<le> 6 * n" using lo hi by (auto simp: r_def)
      with assms have "v - r \<noteq> 1" by linarith
      moreover have "r \<le> v" using lo by (auto simp: r_def)
      ultimately have "bust_add (v - r) r = v" using r by (simp add: bust_add_def)
      moreover have "r \<in> set faces" using r by (simp add: faces_def)
      ultimately show ?thesis using s by force
    qed
  qed
qed

section \<open>Properties of \<^verbatim>\<open>dice_result\<close>\<close>

text \<open>
  C1. Without pruning, the probability the code's lists give any outcome \<open>v\<close> of
  \<open>n\<close> dice is exactly the share of the \<open>6\<^sup>n\<close> equally likely roll sequences
  whose bust-rule outcome is \<open>v\<close>: the inductive construction with an absorbing
  bust state computes the distribution of the turn.
\<close>

theorem dice_result_prob_exact:
  "dice_result 0 n = Inr d \<Longrightarrow> prob_of d v = roll_prob n v"
proof -
  assume r: "dice_result 0 n = Inr d"
  then have "valid_dist n d" by (rule dice_result_valid)
  then have "prob_of d v = expect d (\<lambda>x. if x = v then 1 else 0)"
    by (simp add: valid_dist_def prob_of_expect)
  also have "\<dots> = roll_prob n v"
    using dice_result_exact [OF refl r] by (simp add: roll_prob_expect)
  finally show ?thesis .
qed

theorem dice_result_prob_exact_witness:
  "dice_result 0 2 = Inr (projr (dice_result 0 2)) \<and>
   prob_of (projr (dice_result 0 2)) 1 = roll_prob 2 1"
proof -
  have h: "dice_result 0 2 = Inr (projr (dice_result 0 2))" by code_simp
  show ?thesis using h dice_result_prob_exact [OF h] by simp
qed

text \<open>
  C2. For every \<open>n \<ge> 1\<close> and no pruning, \<^verbatim>\<open>dice_result\<close> returns (it does not
  raise) and its probabilities add up to exactly 1.
\<close>

theorem dice_result_sums_to_one:
  "0 < n \<Longrightarrow> \<exists>d. dice_result 0 n = Inr d \<and> sum_list (snd d) = 1"
proof -
  assume "0 < n"
  then obtain d where r: "dice_result 0 n = Inr d" using dice_result_total by blast
  have "sum_list (snd d) = expect d (\<lambda>_. 1)"
    using dice_result_wf [OF r] by (simp add: expect_one)
  also have "\<dots> = 1"
    using dice_result_exact [OF refl r] by (simp add: roll_expect_one)
  finally show ?thesis using r by blast
qed

theorem dice_result_sums_to_one_witness:
  "0 < (3::nat) \<and> (\<exists>d. dice_result 0 3 = Inr d \<and> sum_list (snd d) = 1)"
  using dice_result_sums_to_one [of 3] by simp

text \<open>
  C3. Under every cutoff, a result for \<open>n\<close> dice has lists of equal length,
  distinct outcomes between 1 and \<open>6 n\<close>, positive probabilities adding up to at
  most 1, and, when the cutoff is set, every kept probability is above it.
\<close>

theorem dice_result_invariant:
  "dice_result c n = Inr d \<Longrightarrow> valid_dist n d \<and> (c \<noteq> 0 \<longrightarrow> (\<forall>w \<in> set (snd d). c < w))"
  using dice_result_valid dice_result_above_cutoff by blast

theorem dice_result_invariant_witness:
  "dice_result (1/1000) 1 = Inr ([1, 2, 3, 4, 5, 6], replicate 6 (1/6)) \<and>
   distinct [1, 2, 3, 4, 5, 6 :: nat] \<and> sum_list (replicate 6 (1/6 :: rat)) \<le> 1 \<and>
   (1/1000 :: rat) < 1/6"
proof -
  have h: "dice_result (1/1000) 1 = Inr ([1, 2, 3, 4, 5, 6], replicate 6 (1/6))"
    using dice_result_one_eq [of "1/1000"] by simp
  from dice_result_invariant [OF h] have "valid_dist 1 ([1, 2, 3, 4, 5, 6], replicate 6 (1/6))"
    and "(1/1000 :: rat) < 1/6" by simp_all
  with h show ?thesis by (simp add: valid_dist_def)
qed

text \<open>
  C4. One die gives the six faces, each with probability 1/6, for every cutoff
  below 1/6 (the code's cutoff is 0.001); a larger cutoff prunes them all.
\<close>

theorem dice_result_one:
  "dice_result c 1 = Inr (if c < 1/6 then ([1, 2, 3, 4, 5, 6], replicate 6 (1/6)) else ([], []))"
  by (auto simp: normalize_dist_def prune_dist_def Let_def sum_list_replicate numeral_eq_Suc)



text \<open>
  C6. The outcomes the code lists for \<open>n \<ge> 1\<close> dice are the bust outcome 1 and
  sums between \<open>2 n\<close> and \<open>6 n\<close> (a turn without a 1 shows at least 2 on every
  die); without pruning the list holds exactly these outcomes.
\<close>

theorem dice_result_outcomes:
  "dice_result c n = Inr d \<Longrightarrow>
   set (fst d) \<subseteq> insert 1 {2 * n..6 * n} \<and> (c = 0 \<longrightarrow> set (fst d) = insert 1 {2 * n..6 * n})"
proof (induction c n arbitrary: d rule: dice_result.induct)
  case (2 c)
  then have d: "d = prune_dist c (normalize_dist ([1, 2, 3, 4, 5, 6], replicate 6 1))" by simp
  have six: "set [1, 2, 3, 4, 5, 6 :: nat] = insert 1 {2 * Suc 0..6 * Suc 0}" by auto
  have "set (fst d) \<subseteq> set [1, 2, 3, 4, 5, 6 :: nat]"
    unfolding d using prune_set [of c "normalize_dist ([1, 2, 3, 4, 5, 6], replicate 6 1)"] by simp
  moreover have "c = 0 \<Longrightarrow> set (fst d) = set [1, 2, 3, 4, 5, 6 :: nat]" unfolding d by simp
  ultimately show ?case unfolding six by simp
next
  case (3 c n)
  from "3.prems" obtain ss ps where prev: "dice_result c (Suc n) = Inr (ss, ps)"
    and d: "d = prune_dist c (normalize_dist (expand_dist ss ps ([], [])))"
    by (auto split: prod.splits)
  note IH = "3.IH" [OF prev]
  have len: "length ss = length ps" using dice_result_wf [OF prev] by (simp add: wf_dist_def)
  have ex: "set (fst (expand_dist ss ps ([], []))) = (\<Union>s \<in> set ss. bust_add s ` set faces)"
    using expand_dist_set_eq [OF len, of "([], [])"] by simp
  have "set (fst d) \<subseteq> set (fst (expand_dist ss ps ([], [])))"
    unfolding d using prune_set [of c "normalize_dist (expand_dist ss ps ([], []))"]
    by (simp only: normalize_fst)
  also have "\<dots> \<subseteq> insert 1 {2 * Suc (Suc n)..6 * Suc (Suc n)}"
    unfolding ex using IH by (intro bust_step_subset) simp
  finally have sub: "set (fst d) \<subseteq> insert 1 {2 * Suc (Suc n)..6 * Suc (Suc n)}" .
  have "set (fst d) = insert 1 {2 * Suc (Suc n)..6 * Suc (Suc n)}" if "c = 0"
  proof -
    from that IH have "set ss = insert 1 {2 * Suc n..6 * Suc n}" by simp
    with that ex show ?thesis unfolding d using bust_step_eq [of "Suc n"] by simp
  qed
  with sub show ?case by blast
qed simp

theorem dice_result_outcomes_witness:
  "dice_result 0 2 = Inr (projr (dice_result 0 2)) \<and>
   set (fst (projr (dice_result 0 2))) = insert 1 {4..12}"
proof -
  have h: "dice_result 0 2 = Inr (projr (dice_result 0 2))" by code_simp
  show ?thesis using h dice_result_outcomes [OF h] by simp
qed

end
