(* ===== verification/Solver.thy ===== *)
theory Solver
  imports Rules Distribution
begin

text \<open>
  The optimal-move solver of \<^verbatim>\<open>src/hog.py\<close> (lines 362--376, 400--426):
  \<^verbatim>\<open>max_prob_calc\<close> and \<^verbatim>\<open>find_best_move\<close> are mutually recursive and memoise
  their results in the 100 \<open>\<times>\<close> 100 list \<^verbatim>\<open>best_move\<close>, which both mutate in
  place; \<^verbatim>\<open>gen_final_strategy\<close> fills the whole table. The table is threaded
  through the calls explicitly. Against it stands \<open>optimal_move\<close>, the
  backward-induction value of the specification as a pure recursive function,
  and the refinement lemma that every table the code builds holds only cells
  of \<open>optimal_move\<close>.
\<close>

section \<open>The memo table\<close>

text \<open>
  A cell of \<^verbatim>\<open>best_move\<close> is the integer \<^verbatim>\<open>0\<close> (not yet solved, line 421)
  or the list \<^verbatim>\<open>[max_roll, max_prob]\<close> written at line 415.
\<close>

datatype cell = CInt int | CMove nat rat

type_synonym table = "nat \<Rightarrow> nat \<Rightarrow> cell"

text \<open>\<^verbatim>\<open>find_best_move(...)[1]\<close> at line 374: indexing an integer raises \<^verbatim>\<open>TypeError\<close>.\<close>

definition cell_prob :: "cell \<Rightarrow> rat py_result" where
  "cell_prob entry = (case entry of CMove m p \<Rightarrow> Inr p | CInt i \<Rightarrow> Inl TypeError)"

section \<open>The solver\<close>

text \<open>Lines 365--368: the outcomes of a move.\<close>

definition move_points :: "rat \<Rightarrow> nat \<Rightarrow> nat \<Rightarrow> dist py_result" where
  "move_points prob_cutoff num_roll opponent_score =
     (if num_roll \<noteq> 0 then dice_result prob_cutoff num_roll
      else Inr ([tail_points opponent_score], [1]))"

text \<open>
  Lines 400--417 and 362--376. \<open>max_roll\<close> is \<open>None\<close> while unbound: reading it
  unbound raises \<^verbatim>\<open>UnboundLocalError\<close>. Termination: a call of
  \<^verbatim>\<open>find_best_move(s, t)\<close> makes calls \<^verbatim>\<open>find_best_move(t, s')\<close> with
  \<open>s < s'\<close> (every outcome scores at least 1 and Square Swine only raises a
  score), so \<open>200 - (s + t)\<close> decreases.
\<close>

function find_best_move :: "rat \<Rightarrow> nat \<Rightarrow> nat \<Rightarrow> table \<Rightarrow> (cell \<times> table) py_result"
  and max_prob_calc :: "rat \<Rightarrow> nat \<Rightarrow> nat \<Rightarrow> nat \<Rightarrow> table \<Rightarrow> (rat \<times> table) py_result"
where
  "find_best_move c score opponent_score best_move =
     (if \<not> (score < 100 \<and> opponent_score < 100) then Inl AssertionError
      else if best_move score opponent_score \<noteq> CInt 0
      then Inr (best_move score opponent_score, best_move)
      else ebind
        (for_each
          (\<lambda>num_roll (best, best_move).
             ebind (max_prob_calc c num_roll score opponent_score best_move)
               (\<lambda>(win_prob, best_move). Inr (pick_step (num_roll, win_prob) best, best_move)))
          [0..<11] ((-1, None), best_move))
        (\<lambda>((max_prob, max_roll), best_move).
           case max_roll of
             None \<Rightarrow> Inl UnboundLocalError
           | Some m \<Rightarrow>
               (let best_move = best_move(score := (best_move score)(opponent_score := CMove m max_prob))
                in Inr (best_move score opponent_score, best_move))))"
| "max_prob_calc c num_roll score opponent_score best_move =
     ebind (move_points c num_roll opponent_score)
       (\<lambda>(results, probs).
          for_each
            (\<lambda>(result, p) (win_prob, best_move).
               if 100 \<le> square_add score result then Inr (win_prob + 1 * p, best_move)
               else ebind (find_best_move c opponent_score (square_add score result) best_move)
                      (\<lambda>(entry, best_move).
                         ebind (cell_prob entry) (\<lambda>q. Inr (win_prob + (1 - q) * p, best_move))))
            (zip results probs) (0, best_move))"
  by pat_completeness auto

termination
proof (relation "measure (\<lambda>x. case x of
      Inl (c, score, t, _) \<Rightarrow> 2 * (200 - (min score 100 + min t 100)) + 2
    | Inr (c, m, score, t, _) \<Rightarrow> 2 * (200 - (min score 100 + min t 100)) + 1)", goal_cases)
  case 1
  show ?case by simp
next
  case 2
  then show ?case by simp
next
  case (3 c m score t tbl d rs ps x u r p w tbl')
  then have "r \<in> set rs" by (auto dest: set_zip_leftD)
  with 3 have "1 \<le> r"
    by (auto simp: move_points_def tail_points_def Let_def valid_dist_def
        dest!: dice_result_valid split: if_splits)
  with square_add_ge [of score r] 3 have "score < square_add score r" "square_add score r < 100" by auto
  then show ?case by (simp add: min_def) arith
qed

section \<open>The specification: backward induction\<close>

text \<open>The outcomes of a move, which never raise (\<open>move_points_points\<close> below).\<close>

definition points :: "rat \<Rightarrow> nat \<Rightarrow> nat \<Rightarrow> dist" where
  "points c num_roll opponent_score =
     (case move_points c num_roll opponent_score of Inr d \<Rightarrow> d | Inl e \<Rightarrow> ([], []))"

text \<open>
  \<open>optimal_move c s t\<close> is the move and the winning probability of the player
  to move at \<open>(s, t)\<close> under optimal play of both: the value of a move is the
  expectation over its outcomes of 1 for a win and of one minus the opponent's
  value otherwise, and the move is the first of \<open>0..10\<close> with the greatest
  value. It is \<open>(0, 0)\<close> off the board.
\<close>

function optimal_move :: "rat \<Rightarrow> nat \<Rightarrow> nat \<Rightarrow> nat \<times> rat" where
  "optimal_move c score opponent_score =
     (if score < 100 \<and> opponent_score < 100 then
        (case fold pick_step
                (map (\<lambda>num_roll. (num_roll,
                   expect (points c num_roll opponent_score)
                     (\<lambda>r. if 100 \<le> square_add score r then 1
                          else 1 - snd (optimal_move c opponent_score (square_add score r)))))
                  [0..<11])
                (-1, None) of
           (p, Some m) \<Rightarrow> (m, p)
         | (p, None) \<Rightarrow> (0, p))
      else (0, 0))"
  by pat_completeness auto
termination
proof (relation "measure (\<lambda>(c, score, t). 200 - (score + t))", goal_cases)
  case 1
  show ?case by simp
next
  case (2 c score t m r)
  then have "1 \<le> r"
    by (auto simp: points_def move_points_def tail_points_def Let_def valid_dist_def
        dest!: dice_result_valid split: if_splits sum.splits)
  with square_add_ge [of score r] 2 show ?case by auto
qed

text \<open>The value of rolling \<open>num_roll\<close> dice at \<open>(score, opponent_score)\<close>.\<close>

definition move_value :: "rat \<Rightarrow> nat \<Rightarrow> nat \<Rightarrow> nat \<Rightarrow> rat" where
  "move_value c score opponent_score num_roll =
     expect (points c num_roll opponent_score)
       (\<lambda>r. if 100 \<le> square_add score r then 1
            else 1 - snd (optimal_move c opponent_score (square_add score r)))"

definition opt_cell :: "rat \<Rightarrow> nat \<Rightarrow> nat \<Rightarrow> cell" where
  "opt_cell c score opponent_score =
     CMove (fst (optimal_move c score opponent_score)) (snd (optimal_move c score opponent_score))"

text \<open>
  The memo invariant: every cell on the board is unsolved or holds the optimal
  move; \<open>table_le\<close> says that a table keeps every solved cell of another.
\<close>

definition table_ok :: "rat \<Rightarrow> table \<Rightarrow> bool" where
  "table_ok c tbl \<longleftrightarrow> (\<forall>s<100. \<forall>t<100. tbl s t = CInt 0 \<or> tbl s t = opt_cell c s t)"

definition table_le :: "table \<Rightarrow> table \<Rightarrow> bool" where
  "table_le tbl tbl' \<longleftrightarrow> (\<forall>s t. tbl s t \<noteq> CInt 0 \<longrightarrow> tbl' s t = tbl s t)"

section \<open>Filling the whole table\<close>

text \<open>Line 421: \<^verbatim>\<open>[[0] * 100 for _ in range(100)]\<close>.\<close>

definition empty_table :: table where
  "empty_table = (\<lambda>_ _. CInt 0)"

text \<open>Lines 425--426: solve a cell unless it is solved already.\<close>

definition fill_cell :: "rat \<Rightarrow> nat \<Rightarrow> nat \<Rightarrow> table \<Rightarrow> table py_result" where
  "fill_cell c i j best_move =
     (if best_move i j = CInt 0 then ebind (find_best_move c i j best_move) (\<lambda>(_, best_move). Inr best_move)
      else Inr best_move)"

text \<open>Lines 419--426: the two loops over \<^verbatim>\<open>reversed(range(100))\<close>.\<close>

definition gen_final_strategy :: "rat \<Rightarrow> table py_result" where
  "gen_final_strategy c =
     for_each (\<lambda>i. for_each (\<lambda>j. fill_cell c i j) (rev [0..<100])) (rev [0..<100]) empty_table"

declare find_best_move.simps [simp del] max_prob_calc.simps [simp del] optimal_move.simps [simp del]

section \<open>Outcomes\<close>

lemma move_points_points: "move_points c m t = Inr (points c m t)"
proof (cases "m = 0")
  case False
  then obtain d where "dice_result c m = Inr d" using dice_result_total [of m c] by auto
  with False show ?thesis by (simp add: points_def move_points_def)
qed (simp add: points_def move_points_def)

lemma points_valid:
  "wf_dist (points c m t) \<and> pos_weights (points c m t) \<and> sum_list (snd (points c m t)) \<le> 1"
proof (cases "m = 0")
  case True
  then show ?thesis by (simp add: points_def move_points_def wf_dist_def pos_weights_def)
next
  case False
  then obtain d where d: "dice_result c m = Inr d" using dice_result_total [of m c] by auto
  then have "valid_dist m d" by (rule dice_result_valid)
  with d False show ?thesis by (simp add: points_def move_points_def valid_dist_def)
qed

lemma expect_unit:
  assumes "wf_dist d" and "pos_weights d" and "sum_list (snd d) \<le> 1"
    and "\<And>v. v \<in> set (fst d) \<Longrightarrow> 0 \<le> g v \<and> g v \<le> 1"
  shows "0 \<le> expect d g \<and> expect d g \<le> 1"
proof -
  from assms(2) have nn: "\<forall>w \<in> set (snd d). 0 \<le> w" by (auto simp: pos_weights_def)
  have "0 \<le> expect d g" unfolding expect_def by (rule wsum_nonneg) (use nn assms(4) in auto)
  moreover have "expect d g \<le> expect d (\<lambda>_. 1)"
    unfolding expect_def by (rule wsum_mono) (use nn assms(4) in auto)
  ultimately show ?thesis using expect_one [OF assms(1)] assms(3) by simp
qed

section \<open>The specification\<close>

lemma optimal_move_in:
  "score < 100 \<Longrightarrow> opponent_score < 100 \<Longrightarrow>
   optimal_move c score opponent_score =
     (case fold pick_step (map (\<lambda>m. (m, move_value c score opponent_score m)) [0..<11]) (-1, None) of
        (p, Some m) \<Rightarrow> (m, p)
      | (p, None) \<Rightarrow> (0, p))"
  by (simp add: optimal_move.simps [of c score opponent_score] move_value_def)

lemma optimal_move_out:
  "\<not> (score < 100 \<and> opponent_score < 100) \<Longrightarrow> optimal_move c score opponent_score = (0, 0)"
  by (subst optimal_move.simps) auto

lemma optimal_move_bounds:
  "0 \<le> snd (optimal_move c s t) \<and> snd (optimal_move c s t) \<le> 1 \<and> fst (optimal_move c s t) \<le> 10"
proof (induction c s t rule: optimal_move.induct)
  case (1 c s t)
  show ?case
  proof (cases "s < 100 \<and> t < 100")
    case False
    then show ?thesis by (simp add: optimal_move_out)
  next
    case True
    have v: "0 \<le> move_value c s t m \<and> move_value c s t m \<le> 1" if "m < 11" for m
      unfolding move_value_def
    proof (rule expect_unit)
      fix r assume "r \<in> set (fst (points c m t))"
      with "1.IH" [OF True, of m r] that
      show "0 \<le> (if 100 \<le> square_add s r then 1 else 1 - snd (optimal_move c t (square_add s r))) \<and>
            (if 100 \<le> square_add s r then 1 else 1 - snd (optimal_move c t (square_add s r))) \<le> 1"
        by auto
    qed (use points_valid in simp_all)
    obtain p r where f: "fold pick_step (map (\<lambda>k. (k, move_value c s t k)) [0..<11]) (-1, None) = (p, r)"
      by fastforce
    obtain m where "r = Some m" "m < 11" "move_value c s t m = p"
      by (rule fold_pick_step_some [OF f]) (use v [of 0] in simp_all)
    with True f v [of m] show ?thesis by (simp add: optimal_move_in)
  qed
qed

lemma move_value_bounds: "0 \<le> move_value c s t m \<and> move_value c s t m \<le> 1"
  unfolding move_value_def
  by (rule expect_unit) (use points_valid optimal_move_bounds in auto)

text \<open>The fold of \<open>find_best_move\<close>'s loop ends with the optimal move bound.\<close>

lemma optimal_move_fold:
  assumes "s < 100" and "t < 100"
  shows "fold pick_step (map (\<lambda>m. (m, move_value c s t m)) [0..<11]) (-1, None) =
           (snd (optimal_move c s t), Some (fst (optimal_move c s t)))"
proof -
  obtain p r where f: "fold pick_step (map (\<lambda>k. (k, move_value c s t k)) [0..<11]) (-1, None) = (p, r)"
    by fastforce
  obtain m where "r = Some m"
    by (rule fold_pick_step_some [OF f]) (use move_value_bounds [of c s t 0] in simp_all)
  with assms f show ?thesis by (simp add: optimal_move_in)
qed

lemma optimal_move_argmax:
  assumes "s < 100" and "t < 100"
  shows "fst (optimal_move c s t) < 11 \<and>
         move_value c s t (fst (optimal_move c s t)) = snd (optimal_move c s t) \<and>
         (\<forall>k<11. move_value c s t k \<le> snd (optimal_move c s t)) \<and>
         (\<forall>k<fst (optimal_move c s t). move_value c s t k < snd (optimal_move c s t))"
proof -
  obtain m where
    "Some (fst (optimal_move c s t)) = Some m" "m < 11" "move_value c s t m = snd (optimal_move c s t)"
    "\<forall>k<11. move_value c s t k \<le> snd (optimal_move c s t)"
    "\<forall>k<m. move_value c s t k < snd (optimal_move c s t)"
    by (rule fold_pick_step_some [OF optimal_move_fold [OF assms, of c]])
      (use move_value_bounds [of c s t 0] in simp_all)
  then show ?thesis by simp
qed

section \<open>The memo table refines the specification\<close>

lemma table_le_refl [simp]: "table_le tbl tbl"
  by (simp add: table_le_def)

lemma table_le_trans: "table_le a b \<Longrightarrow> table_le b d \<Longrightarrow> table_le a d"
  by (auto simp: table_le_def)

lemma opt_cell_solved [simp]: "opt_cell c s t \<noteq> CInt 0"
  by (simp add: opt_cell_def)

lemma cell_prob_opt [simp]: "cell_prob (opt_cell c s t) = Inr (snd (optimal_move c s t))"
  by (simp add: opt_cell_def cell_prob_def)

text \<open>Lines 406--417, given that each \<^verbatim>\<open>max_prob_calc\<close> call computes the move's value.\<close>

lemma find_best_move_solve:
  assumes ok: "table_ok c tbl" and st: "s < 100" "t < 100" and empty: "tbl s t = CInt 0"
    and IH: "\<And>m u. m < 11 \<Longrightarrow> table_ok c u \<Longrightarrow>
      \<exists>u'. max_prob_calc c m s t u = Inr (move_value c s t m, u') \<and> table_ok c u' \<and> table_le u u'"
  shows "\<exists>tbl'. find_best_move c s t tbl = Inr (opt_cell c s t, tbl') \<and> table_ok c tbl' \<and>
           table_le tbl tbl' \<and> tbl' s t = opt_cell c s t"
proof -
  have "\<exists>u'. for_each
          (\<lambda>num_roll (best, best_move).
             ebind (max_prob_calc c num_roll s t best_move)
               (\<lambda>(win_prob, best_move). Inr (pick_step (num_roll, win_prob) best, best_move)))
          [0..<11] ((-1, None), tbl) =
        Inr (fold (\<lambda>m b. pick_step (m, move_value c s t m) b) [0..<11] (-1, None), u') \<and>
        table_ok c u' \<and> table_le tbl u'"
    apply (rule for_each_fold)
    subgoal for x b u using IH [of x u] by (auto intro: table_le_trans)
    subgoal using ok by simp
    done
  then obtain u' where loop: "for_each
          (\<lambda>num_roll (best, best_move).
             ebind (max_prob_calc c num_roll s t best_move)
               (\<lambda>(win_prob, best_move). Inr (pick_step (num_roll, win_prob) best, best_move)))
          [0..<11] ((-1, None), tbl) =
        Inr ((snd (optimal_move c s t), Some (fst (optimal_move c s t))), u')"
    and ok': "table_ok c u'" and le: "table_le tbl u'"
    using optimal_move_fold [OF st, of c] by (auto simp: fold_map o_def)
  let ?tbl = "u'(s := (u' s)(t := opt_cell c s t))"
  have "find_best_move c s t tbl = Inr (opt_cell c s t, ?tbl)"
    using st empty by (simp add: find_best_move.simps [of c s t tbl] loop opt_cell_def)
  moreover have "table_ok c ?tbl" using ok' by (auto simp: table_ok_def)
  moreover have "table_le tbl ?tbl" using le empty by (auto simp: table_le_def)
  ultimately show ?thesis by auto
qed

text \<open>Lines 363--376, given that each \<^verbatim>\<open>find_best_move\<close> call returns the optimal cell.\<close>

lemma max_prob_calc_solve:
  assumes ok: "table_ok c tbl" and st: "s < 100" "t < 100"
    and IH: "\<And>r p u. (r, p) \<in> set (zip (fst (points c m t)) (snd (points c m t))) \<Longrightarrow>
      \<not> 100 \<le> square_add s r \<Longrightarrow> table_ok c u \<Longrightarrow>
      \<exists>u'. find_best_move c t (square_add s r) u = Inr (opt_cell c t (square_add s r), u') \<and>
           table_ok c u' \<and> table_le u u'"
  shows "\<exists>tbl'. max_prob_calc c m s t tbl = Inr (move_value c s t m, tbl') \<and> table_ok c tbl' \<and>
           table_le tbl tbl'"
proof -
  obtain rs ps where pts: "points c m t = (rs, ps)" by fastforce
  define g where "g r = (if 100 \<le> square_add s r then 1 else 1 - snd (optimal_move c t (square_add s r)))"
    for r
  have mv: "move_value c s t m = fold (\<lambda>x w. w + (case x of (r, p) \<Rightarrow> p * g r)) (zip rs ps) 0"
    by (simp add: move_value_def expect_def wsum_def fold_add_sum pts g_def [abs_def])
  show ?thesis
    unfolding max_prob_calc.simps [of c m s t tbl] move_points_points pts ebind_Inr prod.case mv
    apply (rule for_each_fold)
    subgoal for x b u
    proof (cases x)
      case (Pair r p)
      assume x: "x \<in> set (zip rs ps)" and u: "table_ok c u \<and> table_le tbl u"
      show ?thesis
      proof (cases "100 \<le> square_add s r")
        case True
        with Pair u show ?thesis by (simp add: g_def)
      next
        case False
        with IH [of r p u] x Pair pts u obtain u' where
          "find_best_move c t (square_add s r) u = Inr (opt_cell c t (square_add s r), u')"
          "table_ok c u'" "table_le u u'"
          by auto
        with False Pair u show ?thesis by (auto simp: g_def mult.commute intro: table_le_trans)
      qed
    qed
    subgoal using ok by simp
    done
qed

lemma solver_refines:
  "table_ok c tbl \<Longrightarrow> s < 100 \<Longrightarrow> t < 100 \<Longrightarrow>
   \<exists>tbl'. find_best_move c s t tbl = Inr (opt_cell c s t, tbl') \<and> table_ok c tbl' \<and>
          table_le tbl tbl' \<and> tbl' s t = opt_cell c s t"
  "table_ok c tbl \<Longrightarrow> s < 100 \<Longrightarrow> t < 100 \<Longrightarrow>
   \<exists>tbl'. max_prob_calc c m s t tbl = Inr (move_value c s t m, tbl') \<and> table_ok c tbl' \<and>
          table_le tbl tbl'"
proof (induction c s t tbl and c m s t tbl rule: find_best_move_max_prob_calc.induct)
  case (1 c s t tbl)
  show ?case
  proof (cases "tbl s t = CInt 0")
    case True
    show ?thesis
    proof (rule find_best_move_solve [OF "1.prems" True])
      fix m :: nat and u assume "m < 11" and "table_ok c u"
      with "1.IH" [where x = m and u = "((-1, None), u)" and xa = "(-1, None)" and y = u] "1.prems" True
      show "\<exists>u'. max_prob_calc c m s t u = Inr (move_value c s t m, u') \<and> table_ok c u' \<and> table_le u u'"
        by simp
    qed
  next
    case False
    with "1.prems" have "tbl s t = opt_cell c s t" unfolding table_ok_def by blast
    with "1.prems" False show ?thesis by (simp add: find_best_move.simps [of c s t tbl])
  qed
next
  case (2 c m s t tbl)
  show ?case
  proof (rule max_prob_calc_solve [OF "2.prems"])
    fix r p u
    assume "(r, p) \<in> set (zip (fst (points c m t)) (snd (points c m t)))"
      and "\<not> 100 \<le> square_add s r" and "table_ok c u"
    with "2.IH" [OF move_points_points, of "fst (points c m t)" "snd (points c m t)" "(r, p)" r p u]
      "2.prems"
    show "\<exists>u'. find_best_move c t (square_add s r) u = Inr (opt_cell c t (square_add s r), u') \<and>
              table_ok c u' \<and> table_le u u'"
      by auto
  qed
qed

lemma find_best_move_ok:
  "table_ok c tbl \<Longrightarrow> s < 100 \<Longrightarrow> t < 100 \<Longrightarrow>
   \<exists>tbl'. find_best_move c s t tbl = Inr (opt_cell c s t, tbl') \<and> table_ok c tbl' \<and>
          table_le tbl tbl' \<and> tbl' s t = opt_cell c s t"
  by (rule solver_refines(1))

lemma table_ok_empty [simp]: "table_ok c empty_table"
  by (simp add: table_ok_def empty_table_def)

lemma fill_cell_ok:
  assumes "table_ok c tbl" and "i < 100" and "j < 100"
  shows "\<exists>tbl'. fill_cell c i j tbl = Inr tbl' \<and> table_ok c tbl' \<and> table_le tbl tbl' \<and> tbl' i j \<noteq> CInt 0"
proof (cases "tbl i j = CInt 0")
  case True
  with find_best_move_ok [OF assms] show ?thesis by (auto simp: fill_cell_def)
qed (use assms(1) in \<open>simp add: fill_cell_def\<close>)

lemma solved_keep: "tbl i j \<noteq> CInt 0 \<Longrightarrow> table_le tbl tbl' \<Longrightarrow> tbl' i j \<noteq> CInt 0"
  by (simp add: table_le_def)

lemma fill_row_ok:
  assumes "table_ok c tbl" and "i < 100"
  shows "\<exists>tbl'. for_each (fill_cell c i) (rev [0..<100]) tbl = Inr tbl' \<and> table_ok c tbl' \<and>
           table_le tbl tbl' \<and> (\<forall>j \<in> set (rev [0..<100]). tbl' i j \<noteq> CInt 0)"
  apply (rule for_each_fill [where P = "table_ok c" and R = table_le and Q = "\<lambda>j u. u i j \<noteq> CInt 0"])
  subgoal for j u using fill_cell_ok [of c u i j] assms(2) by simp
  subgoal by (rule assms(1))
  subgoal by simp
  subgoal by (rule table_le_trans)
  subgoal by (rule solved_keep)
  done

lemma gen_final_strategy_ok:
  "\<exists>tbl. gen_final_strategy c = Inr tbl \<and> table_ok c tbl \<and>
     (\<forall>i \<in> set (rev [0..<100]). \<forall>j \<in> set (rev [0..<100]). tbl i j \<noteq> CInt 0)"
proof -
  have "\<exists>tbl. for_each (\<lambda>i. for_each (fill_cell c i) (rev [0..<100])) (rev [0..<100]) empty_table = Inr tbl \<and>
     table_ok c tbl \<and> table_le empty_table tbl \<and>
     (\<forall>i \<in> set (rev [0..<100]). \<forall>j \<in> set (rev [0..<100]). tbl i j \<noteq> CInt 0)"
    apply (rule for_each_fill [where P = "table_ok c" and R = table_le
          and Q = "\<lambda>i u. \<forall>j \<in> set (rev [0..<100]). u i j \<noteq> CInt 0"])
    subgoal for i u using fill_row_ok [of c u i] by simp
    subgoal by simp
    subgoal by simp
    subgoal by (rule table_le_trans)
    subgoal by (metis solved_keep)
    done
  then show ?thesis unfolding gen_final_strategy_def by blast
qed

lemma find_best_move_Inr:
  assumes "table_ok c tbl" and "find_best_move c s t tbl = Inr (x, tbl')"
  shows "s < 100 \<and> t < 100 \<and> x = opt_cell c s t \<and> table_ok c tbl'"
proof (cases "s < 100 \<and> t < 100")
  case True
  with find_best_move_ok [OF assms(1), of s t] assms(2) show ?thesis by auto
next
  case False
  with assms(2) show ?thesis by (simp add: find_best_move.simps [of c s t tbl])
qed

text \<open>From 99 points Pig Tail always wins: roll no dice.\<close>

lemma optimal_move_99:
  assumes t: "t < 100"
  shows "optimal_move c 99 t = (0, 1)"
proof -
  have v0: "move_value c 99 t 0 = 1"
    using tail_points_pos [of t] square_add_ge [of 99 "tail_points t"]
    by (simp add: move_value_def points_def move_points_def expect_def)
  note A = optimal_move_argmax [of 99 t c, OF _ t]
  then have "move_value c 99 t 0 \<le> snd (optimal_move c 99 t)" by simp
  with v0 move_value_bounds [of c 99 t "fst (optimal_move c 99 t)"] A
  have p: "snd (optimal_move c 99 t) = 1" by simp
  have "fst (optimal_move c 99 t) = 0"
  proof (rule ccontr)
    assume "fst (optimal_move c 99 t) \<noteq> 0"
    with A have "move_value c 99 t 0 < snd (optimal_move c 99 t)" by simp
    with v0 p show False by simp
  qed
  with p show ?thesis by (simp add: prod_eq_iff)
qed

lemma gen_final_strategy_cells:
  assumes "gen_final_strategy c = Inr tbl" and "s < 100" and "t < 100"
  shows "tbl s t = opt_cell c s t"
proof -
  from gen_final_strategy_ok [of c] assms(1) have ok: "table_ok c tbl"
    and filled: "\<forall>i \<in> set (rev [0..<100]). \<forall>j \<in> set (rev [0..<100]). tbl i j \<noteq> CInt 0"
    by auto
  from filled assms(2,3) have "tbl s t \<noteq> CInt 0" by simp
  with ok assms(2,3) show ?thesis unfolding table_ok_def by blast
qed

section \<open>Properties of the solver\<close>

text \<open>
  C14. Memoisation is sound: from any table that holds only optimal cells,
  \<^verbatim>\<open>find_best_move\<close> on the board returns without exception the optimal move
  and winning probability of the backward-induction specification, and leaves
  a table that again holds only optimal cells.
\<close>

theorem find_best_move_refines:
  "table_ok c tbl \<Longrightarrow> s < 100 \<Longrightarrow> t < 100 \<Longrightarrow>
   \<exists>tbl'. find_best_move c s t tbl = Inr (CMove (fst (optimal_move c s t)) (snd (optimal_move c s t)), tbl') \<and>
          table_ok c tbl'"
  using find_best_move_ok [of c tbl s t] by (auto simp: opt_cell_def)

theorem find_best_move_refines_witness:
  "\<exists>tbl'. find_best_move 0 0 0 empty_table =
     Inr (CMove (fst (optimal_move 0 0 0)) (snd (optimal_move 0 0 0)), tbl')"
  using find_best_move_refines [OF table_ok_empty, of 0 0 0] by auto

text \<open>
  C15. The move \<^verbatim>\<open>find_best_move\<close> returns has the greatest value among the
  moves 0 to 10 and its stored probability is that value; of several moves with
  the greatest value it returns the smallest (a later move replaces the best
  only when strictly better).
\<close>

theorem find_best_move_argmax:
  assumes "table_ok c tbl" and "find_best_move c s t tbl = Inr (CMove m p, tbl')"
  shows "move_value c s t m = p \<and> (\<forall>k\<le>10. move_value c s t k \<le> p) \<and> (\<forall>k<m. move_value c s t k < p)"
proof -
  from find_best_move_Inr [OF assms] have st: "s < 100" "t < 100"
    and "m = fst (optimal_move c s t)" "p = snd (optimal_move c s t)"
    by (auto simp: opt_cell_def)
  with optimal_move_argmax [OF st, of c] show ?thesis by (auto simp: less_Suc_eq_le [symmetric])
qed

theorem find_best_move_argmax_witness:
  "\<exists>tbl'. find_best_move 0 99 0 empty_table = Inr (CMove 0 1, tbl') \<and>
     move_value 0 99 0 0 = 1 \<and> move_value 0 99 0 10 \<le> 1"
proof -
  obtain tbl' where r: "find_best_move 0 99 0 empty_table = Inr (CMove 0 1, tbl')"
    using find_best_move_ok [OF table_ok_empty, of 99 0 0] optimal_move_99 [of 0 0]
    by (auto simp: opt_cell_def)
  from find_best_move_argmax [OF table_ok_empty r] r show ?thesis by auto
qed

text \<open>
  C16. From 99 points the solver rolls no dice and wins with probability 1,
  whatever the opponent's score (Pig Tail gives at least one point).
\<close>

theorem find_best_move_99:
  "table_ok c tbl \<Longrightarrow> t < 100 \<Longrightarrow> \<exists>tbl'. find_best_move c 99 t tbl = Inr (CMove 0 1, tbl')"
  using find_best_move_ok [of c tbl 99 t] optimal_move_99 [of t c] by (auto simp: opt_cell_def)

theorem find_best_move_99_witness:
  "\<exists>tbl'. find_best_move 0 99 42 empty_table = Inr (CMove 0 1, tbl')"
  using find_best_move_99 [OF table_ok_empty, of 42] by simp

text \<open>
  C17. \<^verbatim>\<open>find_best_move\<close> raises exactly off the board, and then the assert's
  \<^verbatim>\<open>AssertionError\<close>: from a table of optimal cells no other exception
  (\<^verbatim>\<open>TypeError\<close>, \<^verbatim>\<open>UnboundLocalError\<close>) is ever raised.
\<close>

theorem find_best_move_error:
  "table_ok c tbl \<Longrightarrow>
   find_best_move c s t tbl = Inl e \<longleftrightarrow> e = AssertionError \<and> \<not> (s < 100 \<and> t < 100)"
proof -
  assume ok: "table_ok c tbl"
  show ?thesis
  proof (cases "s < 100 \<and> t < 100")
    case True
    with find_best_move_ok [OF ok, of s t] show ?thesis by auto
  next
    case False
    then show ?thesis by (auto simp: find_best_move.simps [of c s t tbl])
  qed
qed

theorem find_best_move_error_witness:
  "find_best_move 0 100 0 empty_table = Inl AssertionError"
  using find_best_move_error [OF table_ok_empty, of 0 100 0 AssertionError] by simp

text \<open>
  C18. \<^verbatim>\<open>gen_final_strategy\<close>'s two loops return without exception and leave
  every cell of the board holding its optimal move and winning probability.
\<close>

theorem gen_final_strategy_complete:
  "\<exists>tbl. gen_final_strategy c = Inr tbl \<and>
     (\<forall>s<100. \<forall>t<100. tbl s t = CMove (fst (optimal_move c s t)) (snd (optimal_move c s t)))"
  using gen_final_strategy_ok [of c] gen_final_strategy_cells [of c] by (auto simp: opt_cell_def)

theorem gen_final_strategy_complete_witness:
  "\<exists>tbl. gen_final_strategy 0 = Inr tbl \<and> tbl 99 0 = CMove 0 1"
  using gen_final_strategy_complete [of 0] optimal_move_99 [of 0 0] by auto

text \<open>
  C19. A solved cell is a policy entry: a move between 0 and 10 and a winning
  probability between 0 and 1.
\<close>

theorem find_best_move_bounds:
  assumes "table_ok c tbl" and "find_best_move c s t tbl = Inr (CMove m p, tbl')"
  shows "m \<le> 10 \<and> 0 \<le> p \<and> p \<le> 1"
  using find_best_move_Inr [OF assms] optimal_move_bounds [of c s t] by (auto simp: opt_cell_def)

theorem find_best_move_bounds_witness:
  "\<exists>tbl'. find_best_move 0 99 7 empty_table = Inr (CMove 0 1, tbl') \<and> (0::nat) \<le> 10"
proof -
  obtain tbl' where r: "find_best_move 0 99 7 empty_table = Inr (CMove 0 1, tbl')"
    using find_best_move_ok [OF table_ok_empty, of 99 7 0] optimal_move_99 [of 7 0]
    by (auto simp: opt_cell_def)
  from find_best_move_bounds [OF table_ok_empty r] r show ?thesis by auto
qed

end
