(* ===== verification/Greedy.thy ===== *)
theory Greedy
  imports Rules Distribution
begin

text \<open>
  The greedy solver of \<^verbatim>\<open>src/hog.py\<close>: \<^verbatim>\<open>max_score_roll\<close> (lines 378--398)
  picks, for a state, the number of dice with the greatest expected score
  after the turn, memoised in the 100 \<open>\<times>\<close> 100 list \<^verbatim>\<open>best_score\<close> whose
  unsolved cells are \<^verbatim>\<open>-1\<close>; \<^verbatim>\<open>gen_final_strategy_v05\<close> (lines 463--470)
  fills the whole list. Rolling no dice scores Pig Tail with Square Swine;
  rolling dice scores the expectation of \<^verbatim>\<open>dice_result\<close> without Square Swine.
  The list is the function \<open>gtable\<close>; reading it off the board raises
  \<^verbatim>\<open>IndexError\<close>.
\<close>

type_synonym gtable = "nat \<Rightarrow> nat \<Rightarrow> int"

section \<open>The solver\<close>

text \<open>Line 388: \<^verbatim>\<open>score + sum([roll * rolls[1][i] for i, roll in enumerate(rolls[0])])\<close>.\<close>

definition roll_score :: "nat \<Rightarrow> dist \<Rightarrow> rat" where
  "roll_score score rolls =
     of_nat score + sum_list (map (\<lambda>(roll, p). of_nat roll * p) (zip (fst rolls) (snd rolls)))"

text \<open>Lines 386--390.\<close>

definition new_points :: "rat \<Rightarrow> nat \<Rightarrow> nat \<Rightarrow> nat \<Rightarrow> rat py_result" where
  "new_points prob_cutoff num_roll score opponent_score =
     (if num_roll \<noteq> 0 then ebind (dice_result prob_cutoff num_roll) (\<lambda>rolls. Inr (roll_score score rolls))
      else Inr (of_nat (square_add score (tail_points opponent_score))))"

text \<open>Lines 378--398 (the \<^verbatim>\<open>print\<close> omitted).\<close>

definition max_score_roll :: "rat \<Rightarrow> nat \<Rightarrow> nat \<Rightarrow> gtable \<Rightarrow> (int \<times> gtable) py_result" where
  "max_score_roll c score opponent_score best_score =
     (if \<not> (score < 100 \<and> opponent_score < 100) then Inl IndexError
      else if best_score score opponent_score \<noteq> -1
      then Inr (best_score score opponent_score, best_score)
      else ebind
        (for_each
          (\<lambda>num_roll best. ebind (new_points c num_roll score opponent_score)
                             (\<lambda>new_points. Inr (pick_step (num_roll, new_points) best)))
          [0..<11] (0, None))
        (\<lambda>(max_score, max_roll).
           case max_roll of
             None \<Rightarrow> Inl UnboundLocalError
           | Some m \<Rightarrow>
               (let best_score = best_score(score := (best_score score)(opponent_score := int m))
                in Inr (best_score score opponent_score, best_score))))"

text \<open>Line 465: \<^verbatim>\<open>[[-1] * 100 for _ in range(100)]\<close>.\<close>

definition empty_gtable :: gtable where
  "empty_gtable = (\<lambda>_ _. -1)"

text \<open>Lines 469--470: \<^verbatim>\<open>best_score[i][j] = max_score_roll(i, j, best_score)\<close>.\<close>

definition gfill_cell :: "rat \<Rightarrow> nat \<Rightarrow> nat \<Rightarrow> gtable \<Rightarrow> gtable py_result" where
  "gfill_cell c i j best_score =
     (if best_score i j = -1
      then ebind (max_score_roll c i j best_score)
             (\<lambda>(r, best_score). Inr (best_score(i := (best_score i)(j := r))))
      else Inr best_score)"

text \<open>Lines 463--470.\<close>

definition gen_final_strategy_v05 :: "rat \<Rightarrow> gtable py_result" where
  "gen_final_strategy_v05 c =
     for_each (\<lambda>i. for_each (gfill_cell c i) (rev [0..<100])) (rev [0..<100]) empty_gtable"

section \<open>The specification\<close>

text \<open>
  The expected score after rolling \<open>num_roll\<close> dice, and the first move of
  \<open>0..10\<close> with the greatest one.
\<close>

definition expected_score :: "rat \<Rightarrow> nat \<Rightarrow> nat \<Rightarrow> nat \<Rightarrow> rat" where
  "expected_score c score opponent_score num_roll =
     (if num_roll = 0 then of_nat (square_add score (tail_points opponent_score))
      else of_nat score + (case dice_result c num_roll of Inr d \<Rightarrow> expect d of_nat | Inl e \<Rightarrow> 0))"

definition greedy_move :: "rat \<Rightarrow> nat \<Rightarrow> nat \<Rightarrow> nat" where
  "greedy_move c score opponent_score =
     (case fold pick_step (map (\<lambda>m. (m, expected_score c score opponent_score m)) [0..<11]) (0, None) of
        (p, Some m) \<Rightarrow> m
      | (p, None) \<Rightarrow> 0)"

definition gtable_ok :: "rat \<Rightarrow> gtable \<Rightarrow> bool" where
  "gtable_ok c tbl \<longleftrightarrow> (\<forall>s<100. \<forall>t<100. tbl s t = -1 \<or> tbl s t = int (greedy_move c s t))"

definition gtable_le :: "gtable \<Rightarrow> gtable \<Rightarrow> bool" where
  "gtable_le tbl tbl' \<longleftrightarrow> (\<forall>s t. tbl s t \<noteq> -1 \<longrightarrow> tbl' s t = tbl s t)"

section \<open>The loop computes the expected scores\<close>

lemma new_points_eq: "new_points c m s t = Inr (expected_score c s t m)"
proof (cases "m = 0")
  case False
  then obtain d where d: "dice_result c m = Inr d" using dice_result_total [of m c] by auto
  have "roll_score s d = of_nat s + expect d of_nat"
    by (simp add: roll_score_def expect_def wsum_def case_prod_beta mult.commute)
  with False d show ?thesis by (simp add: new_points_def expected_score_def)
qed (simp add: new_points_def expected_score_def)

lemma expected_score_zero_pos: "0 < expected_score c s t 0"
  using tail_points_pos [of t] square_add_ge [of s "tail_points t"]
  by (simp add: expected_score_def)

lemma greedy_fold:
  "fold pick_step (map (\<lambda>m. (m, expected_score c s t m)) [0..<11]) (0, None) =
     (expected_score c s t (greedy_move c s t), Some (greedy_move c s t))"
proof -
  obtain p r where f: "fold pick_step (map (\<lambda>k. (k, expected_score c s t k)) [0..<11]) (0, None) = (p, r)"
    by fastforce
  obtain m where "r = Some m" "expected_score c s t m = p"
    by (rule fold_pick_step_some [OF f]) (simp_all add: expected_score_zero_pos)
  with f show ?thesis by (simp add: greedy_move_def)
qed

lemma greedy_move_argmax:
  "greedy_move c s t \<le> 10 \<and>
   (\<forall>k\<le>10. expected_score c s t k \<le> expected_score c s t (greedy_move c s t)) \<and>
   (\<forall>k<greedy_move c s t. expected_score c s t k < expected_score c s t (greedy_move c s t))"
proof -
  obtain m where "Some (greedy_move c s t) = Some m" "m < 11"
    "\<forall>k<11. expected_score c s t k \<le> expected_score c s t (greedy_move c s t)"
    "\<forall>k<m. expected_score c s t k < expected_score c s t (greedy_move c s t)"
    by (rule fold_pick_step_some [OF greedy_fold [of c s t]]) (simp_all add: expected_score_zero_pos)
  then show ?thesis by (auto simp: less_Suc_eq_le [symmetric])
qed

lemma max_score_roll_fill:
  assumes "s < 100" and "t < 100" and "tbl s t = -1"
  shows "max_score_roll c s t tbl = Inr (int (greedy_move c s t), tbl(s := (tbl s)(t := int (greedy_move c s t))))"
proof -
  have "for_each
          (\<lambda>num_roll best. ebind (new_points c num_roll s t)
                             (\<lambda>new_points. Inr (pick_step (num_roll, new_points) best)))
          [0..<11] (0, None) =
        Inr (fold (\<lambda>m b. pick_step (m, expected_score c s t m) b) [0..<11] (0, None))"
    by (rule for_each_pure) (simp add: new_points_eq)
  also have "\<dots> = Inr (expected_score c s t (greedy_move c s t), Some (greedy_move c s t))"
    using greedy_fold [of c s t] by (simp add: fold_map o_def)
  finally show ?thesis using assms by (simp add: max_score_roll_def)
qed

section \<open>Filling the table\<close>

lemma gtable_ok_empty [simp]: "gtable_ok c empty_gtable"
  by (simp add: gtable_ok_def empty_gtable_def)

lemma gtable_le_trans: "gtable_le a b \<Longrightarrow> gtable_le b d \<Longrightarrow> gtable_le a d"
  by (auto simp: gtable_le_def)

lemma gsolved_keep: "tbl i j \<noteq> -1 \<Longrightarrow> gtable_le tbl tbl' \<Longrightarrow> tbl' i j \<noteq> -1"
  by (simp add: gtable_le_def)

lemma gfill_cell_ok:
  assumes "gtable_ok c tbl" and "i < 100" and "j < 100"
  shows "\<exists>tbl'. gfill_cell c i j tbl = Inr tbl' \<and> gtable_ok c tbl' \<and> gtable_le tbl tbl' \<and> tbl' i j \<noteq> -1"
proof (cases "tbl i j = -1")
  case True
  with assms max_score_roll_fill [of i j tbl c, OF assms(2,3) True] show ?thesis
    by (auto simp: gfill_cell_def gtable_ok_def gtable_le_def)
qed (use assms(1) in \<open>simp add: gfill_cell_def gtable_le_def\<close>)

lemma gfill_row_ok:
  assumes "gtable_ok c tbl" and "i < 100"
  shows "\<exists>tbl'. for_each (gfill_cell c i) (rev [0..<100]) tbl = Inr tbl' \<and> gtable_ok c tbl' \<and>
           gtable_le tbl tbl' \<and> (\<forall>j \<in> set (rev [0..<100]). tbl' i j \<noteq> -1)"
  apply (rule for_each_fill [where P = "gtable_ok c" and R = gtable_le and Q = "\<lambda>j u. u i j \<noteq> -1"])
  subgoal for j u using gfill_cell_ok [of c u i j] assms(2) by simp
  subgoal by (rule assms(1))
  subgoal by (simp add: gtable_le_def)
  subgoal by (rule gtable_le_trans)
  subgoal by (rule gsolved_keep)
  done

lemma gen_final_strategy_v05_ok:
  "\<exists>tbl. gen_final_strategy_v05 c = Inr tbl \<and> gtable_ok c tbl \<and>
     (\<forall>i \<in> set (rev [0..<100]). \<forall>j \<in> set (rev [0..<100]). tbl i j \<noteq> -1)"
proof -
  have "\<exists>tbl. for_each (\<lambda>i. for_each (gfill_cell c i) (rev [0..<100])) (rev [0..<100]) empty_gtable = Inr tbl \<and>
     gtable_ok c tbl \<and> gtable_le empty_gtable tbl \<and>
     (\<forall>i \<in> set (rev [0..<100]). \<forall>j \<in> set (rev [0..<100]). tbl i j \<noteq> -1)"
    apply (rule for_each_fill [where P = "gtable_ok c" and R = gtable_le
          and Q = "\<lambda>i u. \<forall>j \<in> set (rev [0..<100]). u i j \<noteq> -1"])
    subgoal for i u using gfill_row_ok [of c u i] by simp
    subgoal by simp
    subgoal by (simp add: gtable_le_def)
    subgoal by (rule gtable_le_trans)
    subgoal by (metis gsolved_keep)
    done
  then show ?thesis unfolding gen_final_strategy_v05_def by blast
qed

lemma gen_final_strategy_v05_cells:
  assumes "gen_final_strategy_v05 c = Inr tbl" and "s < 100" and "t < 100"
  shows "tbl s t = int (greedy_move c s t)"
proof -
  from gen_final_strategy_v05_ok [of c] assms(1) have ok: "gtable_ok c tbl"
    and filled: "\<forall>i \<in> set (rev [0..<100]). \<forall>j \<in> set (rev [0..<100]). tbl i j \<noteq> -1"
    by auto
  from filled assms(2,3) have "tbl s t \<noteq> -1" by simp
  with ok assms(2,3) show ?thesis unfolding gtable_ok_def by blast
qed

section \<open>The expected outcome of \<open>n\<close> fair dice\<close>

text \<open>
  Without pruning, \<open>n\<close> dice bust with probability \<open>1 - (5/6)\<^sup>n\<close> and
  otherwise show \<open>n\<close> faces uniform on 2..6: the expected outcome is
  \<open>1 - (5/6)\<^sup>n + 4 n (5/6)\<^sup>n\<close>, greatest for \<open>n = 6\<close>.
\<close>

lemma faces_bust_nat:
  "sum_list (map (\<lambda>r. of_nat (bust_add s r)) faces) = 21 + 5 * of_nat s + (- 20) * bust_ind s"
  by (simp add: faces_list bust_add_def bust_ind_def)

lemma roll_expect_outcome:
  "0 < n \<Longrightarrow> roll_expect n of_nat = 1 - (5/6) ^ n + 4 * of_nat n * (5/6) ^ n"
proof (induction n rule: nat_induct_non_zero)
  case 1
  show ?case by (simp add: roll_expect_one_die faces_list bust_outcome_def)
next
  case (Suc n)
  have "roll_expect (Suc n) of_nat = roll_expect n (\<lambda>s. 21 + 5 * of_nat s + (- 20) * bust_ind s) / 6"
    using roll_expect_Suc [OF Suc.hyps(1), of of_nat] by (simp add: faces_bust_nat)
  also have "\<dots> = (21 + 5 * (1 - (5/6) ^ n + 4 * of_nat n * (5/6) ^ n) + (- 20) * (1 - (5/6) ^ n)) / 6"
    by (simp only: roll_expect_add roll_expect_scale roll_expect_const Suc.IH roll_expect_bust [OF Suc.hyps(1)])
  also have "\<dots> = 1 - 5/6 * (5/6) ^ n + 4 * (of_nat n + 1) * (5/6 * (5/6) ^ n)"
  proof -
    have "(21 + 5 * (1 - q + 4 * x * q) + (- 20) * (1 - q)) / 6 = 1 - 5/6 * q + 4 * (x + 1) * (5/6 * q)"
      for q x :: rat
      by (simp add: field_simps)
    then show ?thesis .
  qed
  finally show ?case by simp
qed

lemma expected_score_exact:
  "0 < m \<Longrightarrow> expected_score 0 s t m = of_nat s + (1 - (5/6) ^ m + 4 * of_nat m * (5/6) ^ m)"
proof -
  assume m: "0 < m"
  then obtain d where d: "dice_result 0 m = Inr d" using dice_result_total [of m 0] by auto
  from dice_result_exact [OF refl d] roll_expect_outcome [OF m] m d show ?thesis
    by (simp add: expected_score_def)
qed

lemma six_dice_best:
  assumes "0 < m" and "m \<le> 10" and "m \<noteq> 6"
  shows "1 - (5/6) ^ m + 4 * of_nat m * (5/6) ^ m < (1 - (5/6) ^ 6 + 4 * 6 * (5/6) ^ 6 :: rat)"
proof -
  from assms have "m = 1 \<or> m = 2 \<or> m = 3 \<or> m = 4 \<or> m = 5 \<or> m = 7 \<or> m = 8 \<or> m = 9 \<or> m = 10"
    by presburger
  then show ?thesis by (elim disjE) (simp_all add: power_divide)
qed

lemma nat_above_six_dice:
  "(of_nat s + (1 - (5/6) ^ 6 + 4 * 6 * (5/6) ^ 6) \<le> (of_nat x :: rat)) \<longleftrightarrow> s + 9 \<le> x"
proof
  assume h: "of_nat s + (1 - (5/6) ^ 6 + 4 * 6 * (5/6) ^ 6) \<le> (of_nat x :: rat)"
  then have "of_nat (s + 8) < (of_nat x :: rat)" by (simp add: power_divide)
  then show "s + 9 \<le> x" by (simp only: of_nat_less_iff)
next
  assume "s + 9 \<le> x"
  then have "of_nat (s + 9) \<le> (of_nat x :: rat)" by (simp only: of_nat_le_iff)
  then show "of_nat s + (1 - (5/6) ^ 6 + 4 * 6 * (5/6) ^ 6) \<le> (of_nat x :: rat)"
    by (simp add: power_divide)
qed

lemma greedy_move_exact:
  "greedy_move 0 s t = (if s + 9 \<le> square_add s (tail_points t) then 0 else 6)"
proof -
  let ?V = "expected_score 0 s t" and ?m = "greedy_move 0 s t"
  have A: "?m \<le> 10" and B: "\<forall>k\<le>10. ?V k \<le> ?V ?m" and C: "\<forall>k<?m. ?V k < ?V ?m"
    using greedy_move_argmax [of 0 s t] by auto
  have V6: "?V 6 = of_nat s + (1 - (5/6) ^ 6 + 4 * 6 * (5/6) ^ 6)"
    using expected_score_exact [of 6 s t] by simp
  have Vk: "?V k < ?V 6" if "0 < k" "k \<le> 10" "k \<noteq> 6" for k
    using expected_score_exact [OF that(1), of s t] six_dice_best [OF that] V6 by simp
  have V0: "?V 0 = of_nat (square_add s (tail_points t))" by (simp add: expected_score_def)
  show ?thesis
  proof (cases "s + 9 \<le> square_add s (tail_points t)")
    case True
    with V6 V0 nat_above_six_dice have le: "?V 6 \<le> ?V 0" by simp
    have "?m = 0"
    proof (rule ccontr)
      assume "?m \<noteq> 0"
      show False
      proof (cases "?m = 6")
        case True
        with C \<open>?m \<noteq> 0\<close> have "?V 0 < ?V 6" by auto
        with le show False by simp
      next
        case False
        with Vk [of ?m] A \<open>?m \<noteq> 0\<close> have "?V ?m < ?V 6" by simp
        moreover from B have "?V 6 \<le> ?V ?m" by simp
        ultimately show False by simp
      qed
    qed
    with True show ?thesis by simp
  next
    case False
    then have "\<not> of_nat s + (1 - (5/6) ^ 6 + 4 * 6 * (5/6) ^ 6) \<le> (of_nat (square_add s (tail_points t)) :: rat)"
      by (simp only: nat_above_six_dice) simp
    with V6 V0 have lt: "?V 0 < ?V 6" by (simp only: not_le)
    have "?m = 6"
    proof (rule ccontr)
      assume "?m \<noteq> 6"
      show False
      proof (cases "?m = 0")
        case True
        from B have "?V 6 \<le> ?V ?m" by simp
        with True lt show False by simp
      next
        case False
        with Vk [of ?m] A \<open>?m \<noteq> 6\<close> have "?V ?m < ?V 6" by simp
        moreover from B have "?V 6 \<le> ?V ?m" by simp
        ultimately show False by simp
      qed
    qed
    with False show ?thesis by simp
  qed
qed

section \<open>Properties of the greedy solver\<close>

text \<open>
  C20. On an unsolved cell, \<^verbatim>\<open>max_score_roll\<close> returns without exception a
  move between 0 and 10 with the greatest expected score after the turn, the
  smallest such move, and stores it in that cell and nowhere else.
\<close>

theorem max_score_roll_argmax:
  assumes "s < 100" and "t < 100" and "tbl s t = -1"
  shows "\<exists>m. max_score_roll c s t tbl = Inr (int m, tbl(s := (tbl s)(t := int m))) \<and> m \<le> 10 \<and>
           (\<forall>k\<le>10. expected_score c s t k \<le> expected_score c s t m) \<and>
           (\<forall>k<m. expected_score c s t k < expected_score c s t m)"
  using max_score_roll_fill [of s t tbl c, OF assms] greedy_move_argmax [of c s t] by blast

theorem max_score_roll_argmax_witness:
  "\<exists>m. max_score_roll 0 3 4 empty_gtable = Inr (int m, empty_gtable(3 := (empty_gtable 3)(4 := int m))) \<and>
       m \<le> 10"
proof -
  have "empty_gtable 3 4 = -1" by (simp add: empty_gtable_def)
  from max_score_roll_argmax [of 3 4 empty_gtable 0, OF _ _ this] show ?thesis by auto
qed

text \<open>
  C21. Without pruning, the score the greedy solver assigns to rolling
  \<open>m \<ge> 1\<close> dice is the current score plus the exact expected outcome of
  \<open>m\<close> fair dice under the bust rule.
\<close>

theorem new_points_exact:
  "0 < m \<Longrightarrow> new_points 0 m s t = Inr (of_nat s + roll_expect m of_nat)"
proof -
  assume m: "0 < m"
  then obtain d where d: "dice_result 0 m = Inr d" using dice_result_total [of m 0] by auto
  from dice_result_exact [OF refl d] m d show ?thesis
    by (simp add: new_points_eq expected_score_def)
qed

theorem new_points_exact_witness:
  "0 < (1::nat) \<and> new_points 0 1 10 0 = Inr (10 + roll_expect 1 of_nat)"
  using new_points_exact [of 1 10 0] by simp

text \<open>
  C22. \<^verbatim>\<open>gen_final_strategy_v05\<close> returns without exception and leaves every
  cell of the board holding the greedy move of that state.
\<close>

theorem gen_final_strategy_v05_complete:
  "\<exists>tbl. gen_final_strategy_v05 c = Inr tbl \<and> (\<forall>s<100. \<forall>t<100. tbl s t = int (greedy_move c s t))"
  using gen_final_strategy_v05_ok [of c] gen_final_strategy_v05_cells [of c] by blast

theorem gen_final_strategy_v05_complete_witness:
  "\<exists>tbl. gen_final_strategy_v05 0 = Inr tbl \<and> tbl 5 7 = int (greedy_move 0 5 7)"
  using gen_final_strategy_v05_complete [of 0] by auto

text \<open>
  C23. The greedy table depends on the opponent's score only through the Pig
  Tail points it would give: two opponent scores with the same Pig Tail points
  get the same move in the table \<^verbatim>\<open>gen_final_strategy_v05\<close> builds (no
  recursion into the opponent's position).
\<close>

theorem gen_final_strategy_v05_tail_only:
  assumes "gen_final_strategy_v05 c = Inr tbl" and "s < 100" and "t < 100" and "t' < 100"
    and "tail_points t = tail_points t'"
  shows "tbl s t = tbl s t'"
proof -
  from assms(5) have "expected_score c s t = expected_score c s t'"
    by (simp add: expected_score_def fun_eq_iff)
  then have "greedy_move c s t = greedy_move c s t'" by (simp add: greedy_move_def)
  with gen_final_strategy_v05_cells [OF assms(1,2,3)] gen_final_strategy_v05_cells [OF assms(1,2,4)]
  show ?thesis by simp
qed

theorem gen_final_strategy_v05_tail_only_witness:
  "\<exists>tbl. gen_final_strategy_v05 0 = Inr tbl \<and> tbl 50 12 = tbl 50 21"
proof -
  obtain tbl where g: "gen_final_strategy_v05 0 = Inr tbl" using gen_final_strategy_v05_ok [of 0] by blast
  have h: "tail_points 12 = tail_points 21" by (simp add: tail_points_def)
  from g gen_final_strategy_v05_tail_only [OF g _ _ _ h, of 50] show ?thesis by auto
qed

text \<open>
  C31. Without pruning the greedy table holds only the moves 0 and 6: six dice
  have the greatest expected outcome (\<open>406031/46656 \<approx> 8.70\<close>), so the greedy
  solver rolls no dice exactly when Pig Tail with Square Swine gains at least 9
  points, and six dice otherwise.
\<close>

theorem gen_final_strategy_v05_exact:
  assumes "gen_final_strategy_v05 0 = Inr tbl" and "s < 100" and "t < 100"
  shows "tbl s t = (if s + 9 \<le> square_add s (tail_points t) then 0 else 6)"
  using gen_final_strategy_v05_cells [OF assms] greedy_move_exact [of s t] by simp

theorem gen_final_strategy_v05_exact_witness:
  "\<exists>tbl. gen_final_strategy_v05 0 = Inr tbl \<and> tbl 0 0 = 6 \<and> tbl 0 9 = 0"
proof -
  obtain tbl where g: "gen_final_strategy_v05 0 = Inr tbl" using gen_final_strategy_v05_ok [of 0] by blast
  have a: "square_add 0 (tail_points 0) = 4" by code_simp
  have b: "square_add 0 (tail_points 9) = 19" by code_simp
  from g gen_final_strategy_v05_exact [OF g, of 0 0] gen_final_strategy_v05_exact [OF g, of 0 9] a b
  show ?thesis by auto
qed

end
