(* ===== verification/Hybrid.thy ===== *)
theory Hybrid
  imports Solver Greedy
begin

text \<open>
  The strategies of \<^verbatim>\<open>src/hog.py\<close> that consult the solvers' tables:
  \<^verbatim>\<open>final_strategy\<close> (lines 449--461) reads the optimal table
  \<^verbatim>\<open>best_move\<close>, imported at line 7 from the generated module, and falls back
  to \<^verbatim>\<open>find_best_move\<close> on that same list; \<^verbatim>\<open>final_strategy_v05\<close>
  (lines 482--493) switches between the optimal table and the greedy table
  \<^verbatim>\<open>best_score\<close> (line 8) by two thresholds. Both tables are lists of 100
  rows of 100 cells: reading off the board raises \<^verbatim>\<open>IndexError\<close>. A strategy
  may update a table (the fallback solves a cell), so it returns the tables.
\<close>

section \<open>Strategies over the tables\<close>

text \<open>\<^verbatim>\<open>entry[0]\<close>: the move of a solved cell; indexing an integer raises \<^verbatim>\<open>TypeError\<close>.\<close>

definition cell_move :: "cell \<Rightarrow> nat py_result" where
  "cell_move entry = (case entry of CMove m p \<Rightarrow> Inr m | CInt i \<Rightarrow> Inl TypeError)"

text \<open>Lines 457--460.\<close>

definition final_strategy :: "rat \<Rightarrow> table \<Rightarrow> nat \<Rightarrow> nat \<Rightarrow> (nat \<times> table) py_result" where
  "final_strategy c best_move score opponent_score =
     (if \<not> (score < 100 \<and> opponent_score < 100) then Inl IndexError
      else if best_move score opponent_score \<noteq> CInt (-1)
      then ebind (cell_move (best_move score opponent_score)) (\<lambda>m. Inr (m, best_move))
      else ebind (find_best_move c score opponent_score best_move)
             (\<lambda>(entry, best_move). ebind (cell_move entry) (\<lambda>m. Inr (m, best_move))))"

text \<open>
  Lines 482--493: \<^verbatim>\<open>strat\<close> for thresholds \<^verbatim>\<open>loss_switch\<close> and
  \<^verbatim>\<open>end_switch\<close> (Python integers, compared in integer arithmetic).
\<close>

definition final_strategy_v05 ::
  "rat \<Rightarrow> int \<Rightarrow> int \<Rightarrow> table \<Rightarrow> gtable \<Rightarrow> nat \<Rightarrow> nat \<Rightarrow> (int \<times> table \<times> gtable) py_result" where
  "final_strategy_v05 c loss_switch end_switch best_move best_score score opponent_score =
     (let optimal =
        ebind (find_best_move c score opponent_score best_move)
          (\<lambda>(entry, best_move). ebind (cell_move entry) (\<lambda>m. Inr (int m, best_move, best_score)))
      in if int score < int opponent_score + loss_switch then optimal
         else if int GOAL - end_switch < int score then optimal
         else ebind (max_score_roll c score opponent_score best_score)
                (\<lambda>(r, best_score). Inr (r, best_move, best_score)))"

section \<open>Reading the tables\<close>

lemma cell_move_opt [simp]: "cell_move (opt_cell c s t) = Inr (fst (optimal_move c s t))"
  by (simp add: opt_cell_def cell_move_def)

lemma find_best_move_solved:
  "s < 100 \<Longrightarrow> t < 100 \<Longrightarrow> tbl s t \<noteq> CInt 0 \<Longrightarrow> find_best_move c s t tbl = Inr (tbl s t, tbl)"
  by (simp add: find_best_move.simps [of c s t tbl])

lemma max_score_roll_solved:
  "s < 100 \<Longrightarrow> t < 100 \<Longrightarrow> tbl s t \<noteq> -1 \<Longrightarrow> max_score_roll c s t tbl = Inr (tbl s t, tbl)"
  by (simp add: max_score_roll_def)

section \<open>Properties of the strategies\<close>

text \<open>
  C24. On the board, \<^verbatim>\<open>final_strategy\<close> returns the move of a solved cell and
  raises \<^verbatim>\<open>TypeError\<close> on every other cell: an unsolved cell \<^verbatim>\<open>0\<close> fails the
  test \<^verbatim>\<open>!= -1\<close> and is indexed, and a cell \<^verbatim>\<open>-1\<close> is returned by
  \<^verbatim>\<open>find_best_move\<close> as already solved and then indexed. The fallback to the
  solver never produces a move.
\<close>

theorem final_strategy_cases:
  "s < 100 \<Longrightarrow> t < 100 \<Longrightarrow>
   final_strategy c tbl s t = (case tbl s t of CMove m p \<Rightarrow> Inr (m, tbl) | CInt i \<Rightarrow> Inl TypeError)"
proof -
  assume st: "s < 100" "t < 100"
  show ?thesis
  proof (cases "tbl s t")
    case (CInt i)
    with st show ?thesis
      by (cases "i = -1") (simp_all add: final_strategy_def cell_move_def find_best_move_solved)
  qed (use st in \<open>simp add: final_strategy_def cell_move_def\<close>)
qed

theorem final_strategy_cases_witness:
  "final_strategy 0 empty_table 0 0 = Inl TypeError \<and> final_strategy 0 (\<lambda>_ _. CInt (-1)) 5 5 = Inl TypeError"
proof -
  have a: "final_strategy 0 empty_table 0 0 = Inl TypeError"
    using final_strategy_cases [of 0 0 0 empty_table] by (simp add: empty_table_def)
  have b: "final_strategy 0 (\<lambda>_ _. CInt (-1)) 5 5 = Inl TypeError"
    using final_strategy_cases [of 5 5 0 "\<lambda>_ _. CInt (-1)"] by simp
  from a b show ?thesis ..
qed

text \<open>
  C25. With the two generated tables, \<^verbatim>\<open>final_strategy_v05\<close> plays the
  optimal move when the player is behind by less than the loss margin or past
  the end threshold, and the greedy move otherwise, without exception and
  without changing either table.
\<close>

theorem final_strategy_v05_tables:
  assumes "gen_final_strategy c = Inr tbl" and "gen_final_strategy_v05 c = Inr gtbl"
    and "s < 100" and "t < 100"
  shows "final_strategy_v05 c ls es tbl gtbl s t =
           Inr (if int s < int t + ls \<or> 100 - es < int s then int (fst (optimal_move c s t))
                else int (greedy_move c s t), tbl, gtbl)"
proof -
  have o: "tbl s t = opt_cell c s t" by (rule gen_final_strategy_cells [OF assms(1,3,4)])
  have g: "gtbl s t = int (greedy_move c s t)" by (rule gen_final_strategy_v05_cells [OF assms(2,3,4)])
  have "find_best_move c s t tbl = Inr (opt_cell c s t, tbl)"
    using find_best_move_solved [OF assms(3,4), of tbl c] o by simp
  moreover have "max_score_roll c s t gtbl = Inr (int (greedy_move c s t), gtbl)"
    using max_score_roll_solved [OF assms(3,4), of gtbl c] g by simp
  ultimately show ?thesis by (simp add: final_strategy_v05_def Let_def)
qed

theorem final_strategy_v05_tables_witness:
  "\<exists>tbl gtbl. gen_final_strategy 0 = Inr tbl \<and> gen_final_strategy_v05 0 = Inr gtbl \<and>
     final_strategy_v05 0 10 16 tbl gtbl 99 0 = Inr (0, tbl, gtbl)"
proof -
  obtain tbl where t: "gen_final_strategy 0 = Inr tbl" using gen_final_strategy_ok [of 0] by blast
  obtain gtbl where g: "gen_final_strategy_v05 0 = Inr gtbl" using gen_final_strategy_v05_ok [of 0] by blast
  have "final_strategy_v05 0 10 16 tbl gtbl 99 0 = Inr (0, tbl, gtbl)"
    using final_strategy_v05_tables [OF t g, of 99 0 10 16] optimal_move_99 [of 0 0] by simp
  with t g show ?thesis by blast
qed

end
