(* ===== verification/Store.thy ===== *)
theory Store
  imports Solver Greedy
begin

text \<open>
  The persisted tables of \<^verbatim>\<open>src/hog.py\<close>. \<^verbatim>\<open>gen_final_strategy_v05\<close> writes
  \<^verbatim>\<open>best_score=\<close> followed by \<^verbatim>\<open>str(best_score)\<close> to \<^verbatim>\<open>best_score.py\<close>
  (lines 472--474) and \<^verbatim>\<open>gen_final_strategy\<close> writes the moves of its table to
  \<^verbatim>\<open>best_move.py\<close> (lines 429--433); the program reads \<^verbatim>\<open>best_score.py\<close> back
  by importing it (line 8). Python's \<^verbatim>\<open>str\<close> of integers and lists is written
  out; the import of a module holding one assignment of a nested list literal
  is modelled by a parser (the generated modules are not part of
  \<^verbatim>\<open>src/\<close>). The probabilities of \<^verbatim>\<open>best_move_w_prob.py\<close> are rounded
  floats: their text is modelled up to the \<^verbatim>\<open>repr\<close> of a rounded float.
\<close>

section \<open>Printing: Python's \<^verbatim>\<open>str\<close>\<close>

function show_nat :: "nat \<Rightarrow> string" where
  "show_nat n = (if n < 10 then [char_of (48 + n)] else show_nat (n div 10) @ [char_of (48 + n mod 10)])"
  by pat_completeness auto
termination
  by (relation "measure id") auto

declare show_nat.simps [simp del]

definition str_int :: "int \<Rightarrow> string" where
  "str_int i = (if i < 0 then CHR ''-'' # show_nat (nat (- i)) else show_nat (nat i))"

text \<open>\<^verbatim>\<open>sep.join(items)\<close>.\<close>

fun py_join :: "string \<Rightarrow> string list \<Rightarrow> string" where
  "py_join sep [] = []"
| "py_join sep [x] = x"
| "py_join sep (x # y # ys) = x @ sep @ py_join sep (y # ys)"

text \<open>\<^verbatim>\<open>str\<close> of a list: \<^verbatim>\<open>'[' + ', '.join(map(repr, xs)) + ']'\<close>.\<close>

definition str_list :: "('a \<Rightarrow> string) \<Rightarrow> 'a list \<Rightarrow> string" where
  "str_list f xs = CHR ''['' # py_join '', '' (map f xs) @ '']''"

text \<open>The 100 \<open>\<times>\<close> 100 list the code holds for a table.\<close>

definition grid_of :: "gtable \<Rightarrow> int list list" where
  "grid_of best_score = map (\<lambda>i. map (\<lambda>j. best_score i j) [0..<100]) [0..<100]"

text \<open>Lines 472--474.\<close>

definition save_best_score :: "gtable \<Rightarrow> string" where
  "save_best_score best_score = ''best_score='' @ str_list (str_list str_int) (grid_of best_score)"

text \<open>Line 429: \<^verbatim>\<open>[[item[0] for item in row] for row in best_move]\<close>.\<close>

definition is_solved :: "cell \<Rightarrow> bool" where
  "is_solved entry = (case entry of CMove m p \<Rightarrow> True | CInt i \<Rightarrow> False)"

definition cell_move_of :: "cell \<Rightarrow> int" where
  "cell_move_of entry = (case entry of CMove m p \<Rightarrow> int m | CInt i \<Rightarrow> 0)"

definition moves_of :: "table \<Rightarrow> int list list py_result" where
  "moves_of best_move =
     (if list_all (\<lambda>i. list_all (\<lambda>j. is_solved (best_move i j)) [0..<100]) [0..<100]
      then Inr (map (\<lambda>i. map (\<lambda>j. cell_move_of (best_move i j)) [0..<100]) [0..<100])
      else Inl TypeError)"

text \<open>Lines 429--433.\<close>

definition save_best_move :: "table \<Rightarrow> string py_result" where
  "save_best_move best_move =
     ebind (moves_of best_move) (\<lambda>rows. Inr (''best_move='' @ str_list (str_list str_int) rows))"

text \<open>
  Line 428: \<^verbatim>\<open>[[[item[0], round(float(item[1]), 5)] for item in row] for row in best_move]\<close>,
  the table written to \<^verbatim>\<open>best_move_w_prob.py\<close> and imported as \<^verbatim>\<open>best_move\<close>
  (line 7). The rounding of the float is the parameter \<open>rnd\<close>.
\<close>

definition best_move_w_prob :: "(rat \<Rightarrow> rat) \<Rightarrow> table \<Rightarrow> table py_result" where
  "best_move_w_prob rnd best_move =
     (if list_all (\<lambda>i. list_all (\<lambda>j. is_solved (best_move i j)) [0..<100]) [0..<100]
      then Inr (\<lambda>i j. case best_move i j of CMove m p \<Rightarrow> CMove m (rnd p) | entry \<Rightarrow> entry)
      else Inl TypeError)"

text \<open>
  Lines 435--437: the text of \<^verbatim>\<open>best_move_w_prob.py\<close>, Python's \<^verbatim>\<open>str\<close> of
  the rows of pairs \<^verbatim>\<open>[move, round(float(prob), 5)]\<close>; \<open>show_prob p\<close> is the
  \<^verbatim>\<open>repr\<close> of the rounded float. An unsolved cell has already raised
  \<^verbatim>\<open>TypeError\<close> on line 428.
\<close>

definition save_best_move_w_prob :: "(rat \<Rightarrow> string) \<Rightarrow> table \<Rightarrow> string py_result" where
  "save_best_move_w_prob show_prob best_move =
     (if list_all (\<lambda>i. list_all (\<lambda>j. is_solved (best_move i j)) [0..<100]) [0..<100]
      then Inr (''best_move='' @
             str_list (str_list (\<lambda>entry. case entry of
                                     CMove m p \<Rightarrow> str_list id [str_int (int m), show_prob p]
                                   | CInt i \<Rightarrow> str_int i))
               (map (\<lambda>i. map (\<lambda>j. best_move i j) [0..<100]) [0..<100]))
      else Inl TypeError)"

section \<open>Loading: the import of the generated module\<close>

fun strip_prefix :: "string \<Rightarrow> string \<Rightarrow> string option" where
  "strip_prefix [] s = Some s"
| "strip_prefix (c # cs) [] = None"
| "strip_prefix (c # cs) (d # s) = (if c = d then strip_prefix cs s else None)"

definition is_digit :: "char \<Rightarrow> bool" where
  "is_digit c \<longleftrightarrow> (48::nat) \<le> of_char c \<and> of_char c \<le> (57::nat)"

definition digits_val :: "string \<Rightarrow> nat" where
  "digits_val ds = foldl (\<lambda>n c. 10 * n + (of_char c - 48)) 0 ds"

definition parse_nat :: "string \<Rightarrow> (nat \<times> string) option" where
  "parse_nat s =
     (let ds = takeWhile is_digit s in if ds = [] then None else Some (digits_val ds, dropWhile is_digit s))"

definition parse_int :: "string \<Rightarrow> (int \<times> string) option" where
  "parse_int s =
     (case strip_prefix ''-'' s of
        Some r \<Rightarrow> map_option (\<lambda>(n, r'). (- int n, r')) (parse_nat r)
      | None \<Rightarrow> map_option (\<lambda>(n, r'). (int n, r')) (parse_nat s))"

text \<open>The items of a non-empty list literal after its \<^verbatim>\<open>[\<close>, each read by \<open>p\<close>.\<close>

partial_function (option) parse_items ::
  "(string \<Rightarrow> ('a \<times> string) option) \<Rightarrow> string \<Rightarrow> ('a list \<times> string) option" where
  "parse_items p s =
     (case p s of
        None \<Rightarrow> None
      | Some (x, r) \<Rightarrow>
          (case strip_prefix '']'' r of
             Some r' \<Rightarrow> Some ([x], r')
           | None \<Rightarrow>
               (case strip_prefix '', '' r of
                  None \<Rightarrow> None
                | Some r' \<Rightarrow> Option.bind (parse_items p r') (\<lambda>(xs, r''). Some (x # xs, r'')))))"

definition parse_list :: "(string \<Rightarrow> ('a \<times> string) option) \<Rightarrow> string \<Rightarrow> ('a list \<times> string) option" where
  "parse_list p s =
     (case strip_prefix ''[]'' s of
        Some r \<Rightarrow> Some ([], r)
      | None \<Rightarrow> (case strip_prefix ''['' s of None \<Rightarrow> None | Some r \<Rightarrow> parse_items p r))"

text \<open>\<^verbatim>\<open>from best_score import best_score\<close> (line 8).\<close>

definition load_best_score :: "string \<Rightarrow> int list list option" where
  "load_best_score s =
     (case strip_prefix ''best_score='' s of
        None \<Rightarrow> None
      | Some r \<Rightarrow> (case parse_list (parse_list parse_int) r of Some (g, []) \<Rightarrow> Some g | _ \<Rightarrow> None))"

text \<open>What may follow a numeral in a list literal.\<close>

definition after_item :: "string \<Rightarrow> bool" where
  "after_item r \<longleftrightarrow> (\<exists>r'. r = '']'' @ r' \<or> r = '', '' @ r')"

section \<open>Numerals\<close>

lemma strip_prefix_append [simp]: "strip_prefix pre (pre @ s) = Some s"
  by (induction pre) simp_all

lemma show_nat_digits: "show_nat n \<noteq> [] \<and> (\<forall>c \<in> set (show_nat n). is_digit c)"
proof (induction n rule: show_nat.induct)
  case (1 n)
  have d: "is_digit (char_of (48 + k))" if "k < 10" for k :: nat
    using that by (simp add: is_digit_def of_char_of)
  show ?case
    using "1.IH" d [of n] d [of "n mod 10"] by (auto simp: show_nat.simps [of n])
qed

lemma digits_val_snoc: "digits_val (ds @ [c]) = 10 * digits_val ds + (of_char c - 48)"
  by (simp add: digits_val_def)

lemma digits_val_show_nat: "digits_val (show_nat n) = n"
proof (induction n rule: show_nat.induct)
  case (1 n)
  have v: "of_char (char_of (48 + k)) - 48 = k" if "k < 10" for k :: nat
    using that by (simp add: of_char_of)
  show ?case
  proof (cases "n < 10")
    case True
    then show ?thesis using v [of n] by (subst show_nat.simps) (simp add: digits_val_def)
  next
    case False
    then show ?thesis using "1.IH" v [of "n mod 10"]
      by (subst show_nat.simps) (simp add: digits_val_snoc)
  qed
qed

lemma after_item_not_digit: "after_item r \<Longrightarrow> takeWhile is_digit r = [] \<and> dropWhile is_digit r = r"
  by (auto simp: after_item_def is_digit_def)

lemma parse_nat_show: "after_item r \<Longrightarrow> parse_nat (show_nat n @ r) = Some (n, r)"
  using show_nat_digits [of n] after_item_not_digit [of r]
  by (simp add: parse_nat_def takeWhile_append2 dropWhile_append2 digits_val_show_nat Let_def)

lemma show_nat_hd: "hd (show_nat n) \<noteq> CHR ''-''"
  using show_nat_digits [of n] by (cases "show_nat n") (auto simp: is_digit_def)

lemma parse_int_str: "after_item r \<Longrightarrow> parse_int (str_int i @ r) = Some (i, r)"
proof -
  assume r: "after_item r"
  have np: "strip_prefix ''-'' (show_nat n @ r) = None" for n
    using show_nat_hd [of n] show_nat_digits [of n]
    by (cases "show_nat n") auto
  show ?thesis
    using parse_nat_show [OF r] np by (simp add: parse_int_def str_int_def)
qed

section \<open>Lists\<close>

lemma after_item_close [simp]: "after_item (CHR '']'' # r)"
  by (auto simp: after_item_def)

lemma after_item_sep [simp]: "after_item (CHR '','' # CHR '' '' # r)"
  by (auto simp: after_item_def)

lemma parse_items_str:
  assumes "xs \<noteq> []"
    and p: "\<And>x r. x \<in> set xs \<Longrightarrow> after_item r \<Longrightarrow> p (f x @ r) = Some (x, r)"
  shows "parse_items p (py_join '', '' (map f xs) @ '']'' @ r) = Some (xs, r)"
  using assms
proof (induction xs rule: induct_list012)
  case (2 x)
  have "p (f x @ '']'' @ r) = Some (x, '']'' @ r)" by (rule "2.prems"(2)) simp_all
  then show ?case by (subst parse_items.simps) simp
next
  case (3 x y ys)
  have hd: "p (f x @ '', '' @ (py_join '', '' (map f (y # ys)) @ '']'' @ r)) =
      Some (x, '', '' @ (py_join '', '' (map f (y # ys)) @ '']'' @ r))"
    by (rule "3.prems"(2)) simp_all
  with "3.IH"(2) "3.prems"(2) show ?case
    by (subst parse_items.simps) simp
qed simp

lemma parse_list_str:
  assumes p: "\<And>x r. x \<in> set xs \<Longrightarrow> after_item r \<Longrightarrow> p (f x @ r) = Some (x, r)"
    and nb: "\<And>x. f x \<noteq> [] \<and> hd (f x) \<noteq> CHR '']''"
  shows "parse_list p (str_list f xs @ r) = Some (xs, r)"
proof (cases xs)
  case Nil
  then show ?thesis by (simp add: parse_list_def str_list_def)
next
  case (Cons x xs')
  have items: "parse_items p (py_join '', '' (map f xs) @ '']'' @ r) = Some (xs, r)"
    using Cons p by (intro parse_items_str) simp_all
  obtain c w where fx: "f x = c # w" and c: "c \<noteq> CHR '']''" using nb [of x] by (cases "f x") auto
  have "py_join '', '' (map f xs) = c # (w @ (if xs' = [] then [] else '', '' @ py_join '', '' (map f xs')))"
    using Cons fx by (cases xs') simp_all
  then have "strip_prefix ''[]'' (str_list f xs @ r) = None"
    using c by (simp add: str_list_def)
  moreover have "strip_prefix ''['' (str_list f xs @ r) = Some (py_join '', '' (map f xs) @ '']'' @ r)"
    by (simp add: str_list_def)
  ultimately show ?thesis using items by (simp add: parse_list_def)
qed

lemma str_int_nb: "str_int i \<noteq> [] \<and> hd (str_int i) \<noteq> CHR '']''"
  using show_nat_digits [of "nat i"]
  by (cases "show_nat (nat i)") (auto simp: str_int_def is_digit_def)

lemma str_list_nb: "str_list f xs \<noteq> [] \<and> hd (str_list f xs) \<noteq> CHR '']''"
  by (simp add: str_list_def)

lemma parse_ints_str: "parse_list parse_int (str_list str_int xs @ r) = Some (xs, r)"
  by (rule parse_list_str) (simp_all add: parse_int_str str_int_nb)

lemma parse_grid_str:
  "parse_list (parse_list parse_int) (str_list (str_list str_int) g @ r) = Some (g, r)"
  by (rule parse_list_str) (simp_all add: parse_ints_str str_list_nb)

lemma grid_of_nth: "s < 100 \<Longrightarrow> t < 100 \<Longrightarrow> grid_of tbl ! s ! t = tbl s t"
  by (simp add: grid_of_def)

lemma length_grid_of: "length (grid_of tbl) = 100 \<and> (\<forall>s<100. length (grid_of tbl ! s) = 100)"
  by (simp add: grid_of_def)

lemma all_board_solved:
  "(\<And>s t. s < 100 \<Longrightarrow> t < 100 \<Longrightarrow> is_solved (tbl s t)) \<Longrightarrow>
   list_all (\<lambda>i. list_all (\<lambda>j. is_solved (tbl i j)) [0..<100]) [0..<100]"
  by (simp add: list_all_iff)

lemma load_save_best_score: "load_best_score (save_best_score tbl) = Some (grid_of tbl)"
  using parse_grid_str [of "grid_of tbl" "[]"] by (simp add: load_best_score_def save_best_score_def)

text \<open>A table read back from \<^verbatim>\<open>best_score.py\<close> need not have the grid's shape.\<close>

lemma load_accepts_malformed: "load_best_score ''best_score=[[11], []]'' = Some [[11], []]"
proof -
  have "''best_score=[[11], []]'' = ''best_score='' @ str_list (str_list str_int) [[11], []]"
    by code_simp
  then show ?thesis using parse_grid_str [of "[[11], []]" "[]"] by (simp add: load_best_score_def)
qed

text \<open>
  The two exports of \<^verbatim>\<open>gen_final_strategy\<close> fail together: both raise
  \<^verbatim>\<open>TypeError\<close> exactly when a cell is unsolved.
\<close>

lemma save_best_move_exports:
  "(save_best_move_w_prob show_prob tbl = Inl TypeError) = (save_best_move tbl = Inl TypeError)"
  by (simp add: save_best_move_w_prob_def save_best_move_def moves_of_def)

section \<open>Properties of the store\<close>

text \<open>
  C26. Saving the greedy table to \<^verbatim>\<open>best_score.py\<close> and importing it gives
  back a 100 \<open>\<times>\<close> 100 list whose every cell is the table's.
\<close>

theorem save_load_best_score:
  "\<exists>g. load_best_score (save_best_score tbl) = Some g \<and> length g = 100 \<and>
     (\<forall>s<100. length (g ! s) = 100 \<and> (\<forall>t<100. g ! s ! t = tbl s t))"
  using load_save_best_score [of tbl] length_grid_of [of tbl] grid_of_nth [of _ _ tbl] by simp

theorem save_load_best_score_witness:
  "\<exists>g. load_best_score (save_best_score empty_gtable) = Some g \<and> g ! 3 ! 4 = -1"
  using save_load_best_score [of empty_gtable] by (auto simp: empty_gtable_def)

end
