(* ===== verification/Report.thy ===== *)
theory Report
  imports Store
begin

text \<open>
  The console output of the two table builders of \<^verbatim>\<open>src/hog.py\<close>: after writing
  its files, \<^verbatim>\<open>gen_final_strategy\<close> prints one line per cell with the move and
  the winning probability as a float, then the whole table (lines 439--443),
  and \<^verbatim>\<open>gen_final_strategy_v05\<close> prints one line per cell with the greedy move,
  then the whole table (lines 476--480). The output is the list of printed
  lines. A \<^verbatim>\<open>Fraction\<close> inside a printed list shows as its \<^verbatim>\<open>repr\<close>,
  \<^verbatim>\<open>Fraction(n, d)\<close> in lowest terms; \<open>show_float\<close> is the \<^verbatim>\<open>repr\<close> of
  \<^verbatim>\<open>float(p)\<close>, a parameter.
\<close>

section \<open>Output\<close>

text \<open>\<^verbatim>\<open>f"({i}, {j}) - "\<close>.\<close>

definition cell_label :: "nat \<Rightarrow> nat \<Rightarrow> string" where
  "cell_label i j = CHR ''('' # show_nat i @ '', '' @ show_nat j @ '') - ''"

text \<open>The cells of the board in the order of the two nested loops.\<close>

definition board_lines :: "(nat \<Rightarrow> nat \<Rightarrow> 'a) \<Rightarrow> 'a list" where
  "board_lines f = concat (map (\<lambda>i. map (\<lambda>j. f i j) [0..<100]) [0..<100])"

text \<open>Lines 476--480.\<close>

definition print_best_score :: "gtable \<Rightarrow> string list" where
  "print_best_score best_score =
     board_lines (\<lambda>i j. cell_label i j @ str_int (best_score i j)) @
     [str_list (str_list str_int) (grid_of best_score)]"

text \<open>\<^verbatim>\<open>repr(Fraction(n, d))\<close>.\<close>

definition repr_fraction :: "rat \<Rightarrow> string" where
  "repr_fraction p =
     (case quotient_of p of (n, d) \<Rightarrow> ''Fraction('' @ str_int n @ '', '' @ str_int d @ '')'')"

text \<open>\<^verbatim>\<open>str\<close> of a cell of \<^verbatim>\<open>best_move\<close>: \<^verbatim>\<open>[move, Fraction(n, d)]\<close> or an integer.\<close>

definition str_cell :: "cell \<Rightarrow> string" where
  "str_cell entry =
     (case entry of CMove m p \<Rightarrow> str_list id [str_int (int m), repr_fraction p] | CInt i \<Rightarrow> str_int i)"

text \<open>
  Lines 439--443; \<^verbatim>\<open>best_move[i][j][0]\<close> raises \<^verbatim>\<open>TypeError\<close> on an unsolved
  cell.
\<close>

definition print_best_move :: "(rat \<Rightarrow> string) \<Rightarrow> table \<Rightarrow> string list py_result" where
  "print_best_move show_float best_move =
     (if list_all (\<lambda>i. list_all (\<lambda>j. is_solved (best_move i j)) [0..<100]) [0..<100]
      then Inr (board_lines (\<lambda>i j. case best_move i j of
                  CMove m p \<Rightarrow> cell_label i j @ show_nat m @ '', win_prob='' @ show_float p
                | CInt k \<Rightarrow> []) @
                [str_list (str_list str_cell) (map (\<lambda>i. map (\<lambda>j. best_move i j) [0..<100]) [0..<100])])
      else Inl TypeError)"

section \<open>The printed lines\<close>

lemma length_concat_rows: "length (concat (map (\<lambda>i. map (f i) [0..<m]) [0..<n])) = m * n"
  by (induction n) simp_all

lemma concat_rows_nth:
  assumes "i < n" and "j < m"
  shows "concat (map (\<lambda>i. map (f i) [0..<m]) [0..<n]) ! (m * i + j) = f i j"
  using assms
proof (induction n)
  case (Suc n)
  note len = length_concat_rows [of f m n]
  show ?case
  proof (cases "i < n")
    case True
    from Suc.prems have "m * i + j < m * Suc i" by simp
    moreover from True have "m * Suc i \<le> m * n" by (intro mult_le_mono2) simp
    ultimately have "m * i + j < m * n" by linarith
    with True Suc len show ?thesis by (simp add: nth_append)
  next
    case False
    with Suc.prems have "i = n" by simp
    with len Suc.prems show ?thesis by (simp add: nth_append)
  qed
qed simp

lemma board_lines_nth: "i < 100 \<Longrightarrow> j < 100 \<Longrightarrow> board_lines f ! (100 * i + j) = f i j"
  unfolding board_lines_def by (rule concat_rows_nth)

lemma length_board_lines [simp]: "length (board_lines f) = 10000"
  unfolding board_lines_def length_concat_rows by simp

text \<open>The last printed line of \<^verbatim>\<open>gen_final_strategy_v05\<close> is the text it wrote to \<^verbatim>\<open>best_score.py\<close>.\<close>

lemma print_best_score_saved:
  "save_best_score best_score = ''best_score='' @ last (print_best_score best_score)"
  unfolding print_best_score_def save_best_score_def by (simp only: last_snoc)

lemma print_best_score_nth:
  assumes "i < 100" and "j < 100"
  shows "print_best_score best_score ! (100 * i + j) = cell_label i j @ str_int (best_score i j)"
proof -
  from assms have "100 * i + j < length (board_lines (\<lambda>i j. cell_label i j @ str_int (best_score i j)))"
    by simp
  with assms show ?thesis
    unfolding print_best_score_def by (simp only: nth_append if_True board_lines_nth)
qed

text \<open>After the fill loop, the line of cell \<open>(i, j)\<close> shows the greedy move of that state.\<close>

lemma print_best_score_greedy:
  assumes "gen_final_strategy_v05 c = Inr tbl" and "i < 100" and "j < 100"
  shows "print_best_score tbl ! (100 * i + j) = cell_label i j @ str_int (int (greedy_move c i j))"
  using print_best_score_nth [OF assms(2,3), of tbl] gen_final_strategy_v05_cells [OF assms] by simp

section \<open>Properties of the report\<close>

text \<open>
  C34. After the fill loop, printing the table of \<^verbatim>\<open>gen_final_strategy\<close>
  (lines 439--443) raises no exception, and the line of cell \<open>(i, j)\<close>, the
  \<open>100 * i + j\<close>-th line, shows that cell's optimal move and its winning
  probability.
\<close>

theorem print_best_move_optimal:
  assumes "gen_final_strategy c = Inr tbl" and "i < 100" and "j < 100"
  shows "\<exists>lines. print_best_move show_float tbl = Inr lines \<and>
           lines ! (100 * i + j) =
             cell_label i j @ show_nat (fst (optimal_move c i j)) @ '', win_prob='' @
             show_float (snd (optimal_move c i j))"
proof -
  have "is_solved (tbl s t)" if "s < 100" "t < 100" for s t
    using gen_final_strategy_cells [OF assms(1) that] by (simp add: is_solved_def opt_cell_def)
  then have solved: "list_all (\<lambda>i. list_all (\<lambda>j. is_solved (tbl i j)) [0..<100]) [0..<100]"
    by (rule all_board_solved)
  define f where "f = (\<lambda>i j. case tbl i j of
                  CMove m p \<Rightarrow> cell_label i j @ show_nat m @ '', win_prob='' @ show_float p
                | CInt k \<Rightarrow> [])"
  from assms(2,3) have "100 * i + j < length (board_lines f)" by simp
  then have "(board_lines f @ [str_list (str_list str_cell) (map (\<lambda>i. map (\<lambda>j. tbl i j) [0..<100]) [0..<100])])
               ! (100 * i + j) = f i j"
    using board_lines_nth [OF assms(2,3), of f] by (simp only: nth_append if_True)
  moreover have "f i j = cell_label i j @ show_nat (fst (optimal_move c i j)) @ '', win_prob='' @
             show_float (snd (optimal_move c i j))"
    using gen_final_strategy_cells [OF assms] by (simp add: f_def opt_cell_def)
  ultimately show ?thesis
    using solved unfolding print_best_move_def f_def by simp
qed

theorem print_best_move_optimal_witness:
  "\<exists>tbl lines. gen_final_strategy 0 = Inr tbl \<and>
     print_best_move (\<lambda>p. if p = 1 then ''1.0'' else ''?'') tbl = Inr lines \<and>
     lines ! 9900 = ''(99, 0) - 0, win_prob=1.0''"
proof -
  obtain tbl where tbl: "gen_final_strategy 0 = Inr tbl"
    using gen_final_strategy_ok [of 0] by blast
  have l: "cell_label 99 0 = ''(99, 0) - ''" by code_simp
  have "show_nat 0 = ''0''" by code_simp
  with l print_best_move_optimal [OF tbl, of 99 0 "\<lambda>p. if p = 1 then ''1.0'' else ''?''"]
    optimal_move_99 [of 0 0] tbl
  show ?thesis by auto
qed

end
