(* ===== verification/Experiments.thy ===== *)
theory Experiments
  imports Simulator
begin

text \<open>
  The experiment harness of \<^verbatim>\<open>src/hog.py\<close> (lines 222--283): \<^verbatim>\<open>make_averaged\<close>
  calls a function \<^verbatim>\<open>total_samples\<close> times and averages the results,
  \<^verbatim>\<open>max_scoring_num_rolls\<close> picks the number of dice with the best average
  turn score, \<^verbatim>\<open>winner\<close> plays one game with Square Swine and
  \<^verbatim>\<open>average_win_rate\<close> averages the wins of a strategy as either player. The
  dice is an explicit state threaded through every call (the random
  \<^verbatim>\<open>six_sided\<close> is any dice), so the averages are deterministic functions of
  the initial dice state. Python's float quotient \<^verbatim>\<open>sum/total_samples\<close> is
  the exact rational: the two order the averages the same way while the sums
  stay below \<open>2\<^sup>5\<^sup>2\<close>. \<^verbatim>\<open>winner\<close> calls \<^verbatim>\<open>play\<close>, which need not return, so
  these functions return a \<open>py_outcome\<close>.
\<close>

section \<open>Averaging\<close>

text \<open>Lines 235--237: \<^verbatim>\<open>for _ in range(total_samples): sum += original_function(*args)\<close>, the running \<^verbatim>\<open>sum\<close> being \<open>acc\<close>.\<close>

fun sample_sum :: "('d \<Rightarrow> (nat \<times> 'd) py_outcome) \<Rightarrow> nat \<Rightarrow> nat \<times> 'd \<Rightarrow> (nat \<times> 'd) py_outcome" where
  "sample_sum f 0 st = Some (Inr st)"
| "sample_sum f (Suc k) (acc, ds) = obind (f ds) (\<lambda>(v, ds'). sample_sum f k (acc + v, ds'))"

text \<open>Lines 222--240: \<^verbatim>\<open>averaged(*args)\<close> returns \<^verbatim>\<open>sum/total_samples\<close>.\<close>

definition make_averaged ::
  "('a \<Rightarrow> 'd \<Rightarrow> (nat \<times> 'd) py_outcome) \<Rightarrow> nat \<Rightarrow> 'a \<Rightarrow> 'd \<Rightarrow> (rat \<times> 'd) py_outcome" where
  "make_averaged original_function total_samples args ds =
     obind (sample_sum (original_function args) total_samples (0, ds))
       (\<lambda>(acc, ds'). if total_samples = 0 then Some (Inl ZeroDivisionError)
                     else Some (Inr (of_nat acc / of_nat total_samples, ds')))"

text \<open>\<^verbatim>\<open>roll_dice\<close> as the function of \<^verbatim>\<open>(num_rolls, dice)\<close> that \<^verbatim>\<open>make_averaged\<close> calls.\<close>

definition roll_dice_fn :: "nat \<times> 'd dice \<Rightarrow> 'd \<Rightarrow> (nat \<times> 'd) py_outcome" where
  "roll_dice_fn args ds = (case args of (num_rolls, dice) \<Rightarrow> Some (roll_dice num_rolls dice ds))"

section \<open>The experiments\<close>

text \<open>Lines 244--263; \<open>best_roll\<close> is \<open>None\<close> while it is unbound.\<close>

definition max_scoring_num_rolls :: "'d dice \<Rightarrow> nat \<Rightarrow> 'd \<Rightarrow> (nat \<times> 'd) py_outcome" where
  "max_scoring_num_rolls dice total_samples ds =
     obind
       (for_each_o
          (\<lambda>num_rolls (best, ds). obind (make_averaged roll_dice_fn total_samples (num_rolls, dice) ds)
             (\<lambda>(avg_sum, ds'). Some (Inr (pick_step (num_rolls, avg_sum) best, ds'))))
          [1..<11] ((0, None), ds))
       (\<lambda>((max_avg, best_roll), ds'). case best_roll of
            None \<Rightarrow> Some (Inl UnboundLocalError)
          | Some m \<Rightarrow> Some (Inr (m, ds')))"

text \<open>Lines 267--273: one game from \<open>(0, 0)\<close> to \<^verbatim>\<open>GOAL\<close> with Square Swine.\<close>

definition winner :: "strategy \<Rightarrow> strategy \<Rightarrow> 'd dice \<Rightarrow> 'd \<Rightarrow> (nat \<times> 'd) py_outcome" where
  "winner strategy0 strategy1 dice ds =
     obind (play strategy0 strategy1 square_update 0 0 dice GOAL ds)
       (\<lambda>(score0, score1, ds'). Some (Inr (if score0 > score1 then 0 else 1, ds')))"

text \<open>
  Lines 276--283. The default \<^verbatim>\<open>baseline=always_roll(6)\<close> is an argument
  here, and the two averages run one after the other on the same dice.
\<close>

definition average_win_rate :: "strategy \<Rightarrow> strategy \<Rightarrow> nat \<Rightarrow> 'd dice \<Rightarrow> 'd \<Rightarrow> (rat \<times> 'd) py_outcome" where
  "average_win_rate strategy baseline total_samples dice ds =
     obind (make_averaged (\<lambda>(s0, s1). winner s0 s1 dice) total_samples (strategy, baseline) ds)
       (\<lambda>(avg0, ds1). obind (make_averaged (\<lambda>(s0, s1). winner s0 s1 dice) total_samples (baseline, strategy) ds1)
          (\<lambda>(avg1, ds2). Some (Inr (((1 - avg0) + avg1) / 2, ds2))))"

section \<open>Sampling\<close>

lemma sample_sum_add:
  "sample_sum f (a + b) st = obind (sample_sum f a st) (sample_sum f b)"
proof (induction a arbitrary: st)
  case (Suc a)
  obtain acc ds where "st = (acc, ds)" by fastforce
  then show ?case
    using Suc by (cases "f ds") (auto simp: obind_def split: sum.splits)
qed simp

text \<open>When every call returns a value with property \<open>Q\<close>, the loop returns the sum of \<open>k\<close> such values.\<close>

lemma sample_sum_values:
  assumes "\<And>ds. \<exists>v ds'. f ds = Some (Inr (v, ds')) \<and> Q v"
  shows "\<exists>vs ds'. length vs = k \<and> (\<forall>v \<in> set vs. Q v) \<and>
           sample_sum f k (acc, ds) = Some (Inr (acc + sum_list vs, ds'))"
proof (induction k arbitrary: acc ds)
  case 0
  then show ?case by simp
next
  case (Suc k)
  from assms obtain v ds1 where f: "f ds = Some (Inr (v, ds1))" and "Q v" by blast
  from Suc.IH [of "acc + v" ds1] obtain vs ds' where "length vs = k" "\<forall>v \<in> set vs. Q v"
    "sample_sum f k (acc + v, ds1) = Some (Inr (acc + v + sum_list vs, ds'))" by blast
  with f \<open>Q v\<close> show ?case
    by (intro exI [of _ "v # vs"] exI [of _ ds']) (simp add: add.assoc)
qed

lemma sum_list_lower: "(\<forall>v \<in> set vs. lo \<le> v) \<Longrightarrow> length vs * lo \<le> sum_list vs"
  for vs :: "nat list"
  by (induction vs) auto

lemma sum_list_upper: "(\<forall>v \<in> set vs. v \<le> hi) \<Longrightarrow> sum_list vs \<le> length vs * hi"
  for vs :: "nat list"
  by (induction vs) auto

text \<open>With \<open>n > 0\<close> samples the average is the mean of \<open>n\<close> values with property \<open>Q\<close>.\<close>

lemma make_averaged_values:
  assumes n: "0 < n"
    and f: "\<And>ds. \<exists>v ds'. original_function args ds = Some (Inr (v, ds')) \<and> Q v"
  shows "\<exists>vs ds'. length vs = n \<and> (\<forall>v \<in> set vs. Q v) \<and>
           make_averaged original_function n args ds = Some (Inr (of_nat (sum_list vs) / of_nat n, ds'))"
proof -
  obtain vs ds' where "length vs = n" "\<forall>v \<in> set vs. Q v"
    "sample_sum (original_function args) n (0, ds) = Some (Inr (0 + sum_list vs, ds'))"
    using sample_sum_values [where Q = Q and f = "original_function args", OF f] by blast
  with n show ?thesis by (auto simp: make_averaged_def)
qed

text \<open>The average of values between \<open>lo\<close> and \<open>hi\<close> lies between them.\<close>

lemma mean_bounds:
  assumes "0 < length vs" and "\<forall>v \<in> set vs. lo \<le> v \<and> v \<le> hi"
  shows "of_nat lo \<le> (of_nat (sum_list vs) / of_nat (length vs) :: rat)"
    and "(of_nat (sum_list vs) / of_nat (length vs) :: rat) \<le> of_nat hi"
proof -
  from assms(2) have "length vs * lo \<le> sum_list vs" "sum_list vs \<le> length vs * hi"
    using sum_list_lower [of vs lo] sum_list_upper [of vs hi] by auto
  then have "of_nat (length vs) * of_nat lo \<le> (of_nat (sum_list vs) :: rat)"
    "(of_nat (sum_list vs) :: rat) \<le> of_nat (length vs) * of_nat hi"
    by (metis of_nat_mult of_nat_le_iff)+
  with assms(1) show "of_nat lo \<le> (of_nat (sum_list vs) / of_nat (length vs) :: rat)"
    "(of_nat (sum_list vs) / of_nat (length vs) :: rat) \<le> of_nat hi"
    by (simp_all add: field_simps)
qed

lemma make_averaged_range:
  assumes n: "0 < n"
    and f: "\<And>ds. \<exists>v ds'. original_function args ds = Some (Inr (v, ds')) \<and> lo \<le> v \<and> v \<le> hi"
  shows "\<exists>a ds'. make_averaged original_function n args ds = Some (Inr (a, ds')) \<and>
           of_nat lo \<le> a \<and> a \<le> of_nat hi"
proof -
  obtain vs ds' where len: "length vs = n" and vs: "\<forall>v \<in> set vs. lo \<le> v \<and> v \<le> hi"
    and m: "make_averaged original_function n args ds = Some (Inr (of_nat (sum_list vs) / of_nat n, ds'))"
    using make_averaged_values [where Q = "\<lambda>v. lo \<le> v \<and> v \<le> hi" and original_function = original_function and args = args, OF n f] by blast
  from mean_bounds [of vs lo hi] len n vs m show ?thesis by auto
qed

section \<open>Averaging one die of a test dice\<close>

lemma roll_dice_one: "roll_dice (Suc 0) dice ds = Inr (dice ds)"
  by (simp add: roll_dice_def split: prod.splits)

lemma roll_dice_fn_one: "roll_dice_fn (Suc 0, dice) ds = Some (Inr (dice ds))"
  by (simp add: roll_dice_fn_def roll_dice_one)

lemma test_dice_next:
  assumes "i < length outcomes"
  shows "test_dice outcomes ((i + length outcomes - 1) mod length outcomes) = (outcomes ! i, i)"
proof -
  from assms have "Suc (i + length outcomes - 1) = i + length outcomes" by simp
  then have "Suc ((i + length outcomes - 1) mod length outcomes) mod length outcomes
                   = (i + length outcomes) mod length outcomes"
    by (metis mod_Suc_eq)
  with assms show ?thesis by (simp add: test_dice_def Let_def)
qed

text \<open>From the state before index \<open>i\<close>, \<open>j\<close> rolls of one die add up the next \<open>j\<close> outcomes.\<close>

lemma sample_sum_test_dice:
  assumes "i + j \<le> length outcomes"
  shows "sample_sum (roll_dice_fn (Suc 0, test_dice outcomes)) j
           (acc, (i + length outcomes - 1) mod length outcomes) =
         Some (Inr (acc + sum_list (take j (drop i outcomes)),
                    (i + j + length outcomes - 1) mod length outcomes))"
  using assms
proof (induction j arbitrary: i acc)
  case (Suc j)
  then have i: "i < length outcomes" by simp
  have next_i: "(Suc i + length outcomes - 1) mod length outcomes = i"
    using i by simp
  have take: "take (Suc j) (drop i outcomes) = outcomes ! i # take j (drop (Suc i) outcomes)"
    using i by (simp add: Cons_nth_drop_Suc [symmetric])
  from Suc.IH [of "Suc i" "acc + outcomes ! i"] Suc.prems
  have "sample_sum (roll_dice_fn (Suc 0, test_dice outcomes)) j (acc + outcomes ! i, i) =
        Some (Inr (acc + outcomes ! i + sum_list (take j (drop (Suc i) outcomes)),
                   (i + Suc j + length outcomes - 1) mod length outcomes))"
    by (simp add: next_i)
  moreover have "sample_sum (roll_dice_fn (Suc 0, test_dice outcomes)) (Suc j)
      (acc, (i + length outcomes - 1) mod length outcomes) =
    sample_sum (roll_dice_fn (Suc 0, test_dice outcomes)) j (acc + outcomes ! i, i)"
    using test_dice_next [OF i] by (simp add: roll_dice_fn_one)
  ultimately show ?case
    using take by (simp add: add.assoc)
qed simp

lemma sample_sum_test_dice_cycles:
  assumes "outcomes \<noteq> []"
  shows "sample_sum (roll_dice_fn (Suc 0, test_dice outcomes)) (k * length outcomes)
           (acc, test_dice_start outcomes) =
         Some (Inr (acc + k * sum_list outcomes, test_dice_start outcomes))"
proof (induction k arbitrary: acc)
  case (Suc k)
  from assms have start: "test_dice_start outcomes = (0 + length outcomes - 1) mod length outcomes"
    by (simp add: test_dice_start_def)
  have "sample_sum (roll_dice_fn (Suc 0, test_dice outcomes)) (length outcomes)
          (acc, test_dice_start outcomes) =
        Some (Inr (acc + sum_list outcomes, test_dice_start outcomes))"
  proof -
    from assms have "length outcomes + length outcomes - 1 = (length outcomes - 1) + length outcomes"
      by simp
    then have "(0 + length outcomes + length outcomes - 1) mod length outcomes = test_dice_start outcomes"
      using assms by (simp add: test_dice_start_def)
    then show ?thesis
      using sample_sum_test_dice [of 0 "length outcomes" outcomes acc] start by simp
  qed
  with Suc.IH [of "acc + sum_list outcomes"] show ?case
    by (simp add: sample_sum_add add.assoc)
qed simp

section \<open>The dice of the docstring of \<^verbatim>\<open>max_scoring_num_rolls\<close>\<close>

lemma roll_loop_one_kept: "\<exists>s' ds'. roll_loop dice k (s, True, ds) = (s', True, ds')"
  by (induction k arbitrary: s ds) (auto split: prod.splits)

text \<open>Two rolls of \<open>make_test_dice(1, 6)\<close> in a row show a 1: more than one die always busts.\<close>

lemma roll_dice_bust_16: "\<exists>ds'. roll_dice (Suc (Suc m)) (test_dice [1, 6]) ds = Inr (1, ds')"
proof -
  define d1 where "d1 = Suc ds mod 2"
  define d2 where "d2 = Suc d1 mod 2"
  have dice1: "test_dice [1, 6] ds = ([1, 6] ! d1, d1)" and dice2: "test_dice [1, 6] d1 = ([1, 6] ! d2, d2)"
    by (simp_all add: test_dice_def d1_def d2_def Let_def numeral_2_eq_2)
  have "d1 = 0 \<or> d2 = 0" unfolding d2_def d1_def by arith
  then have one: "([1, 6] ! d1 = (1::nat)) \<or> ([1, 6] ! d2 = (1::nat))" by auto
  obtain s' ds' where "roll_loop (test_dice [1, 6]) m ([1, 6] ! d1 + [1, 6] ! d2, True, d2) = (s', True, ds')"
    using roll_loop_one_kept [of "test_dice [1, 6]" m "[1, 6] ! d1 + [1, 6] ! d2" d2] by blast
  with dice1 dice2 one show ?thesis
    by (auto simp: roll_dice_def)
qed

lemma make_averaged_bust_16:
  assumes "2 \<le> n" and "0 < k"
  shows "\<exists>ds'. make_averaged roll_dice_fn k (n, test_dice [1, 6]) ds = Some (Inr (1, ds'))"
proof -
  from assms(1) obtain m where n: "n = Suc (Suc m)" by (metis add_2_eq_Suc le_Suc_ex)
  have "\<exists>v ds'. roll_dice_fn (n, test_dice [1, 6]) d = Some (Inr (v, ds')) \<and> 1 \<le> v \<and> v \<le> 1" for d
  proof -
    from roll_dice_bust_16 [of m d] obtain ds' where "roll_dice n (test_dice [1, 6]) d = Inr (1, ds')"
      unfolding n by blast
    then show ?thesis by (simp add: roll_dice_fn_def)
  qed
  from make_averaged_range [where original_function = roll_dice_fn and args = "(n, test_dice [1, 6])"
      and lo = 1 and hi = 1, OF assms(2) this, of ds] show ?thesis by auto
qed

section \<open>Averages of a positive dice\<close>

lemma make_averaged_positive:
  assumes pd: "positive_dice dice" and x: "0 < x" and n: "0 < n"
  shows "\<exists>a ds'. make_averaged roll_dice_fn n (x, dice) ds = Some (Inr (a, ds')) \<and> 1 \<le> a"
proof -
  have "\<exists>v ds'. roll_dice_fn (x, dice) d = Some (Inr (v, ds')) \<and> 1 \<le> v" for d
    using roll_dice_positive [OF pd x, of d] by (auto simp: roll_dice_fn_def)
  from make_averaged_values [where Q = "\<lambda>v. 1 \<le> v" and original_function = roll_dice_fn
      and args = "(x, dice)", OF n this, of ds]
  obtain vs ds' where len: "length vs = n" and vs: "\<forall>v \<in> set vs. 1 \<le> v"
    and m: "make_averaged roll_dice_fn n (x, dice) ds = Some (Inr (of_nat (sum_list vs) / of_nat n, ds'))"
    by blast
  have "\<forall>v \<in> set vs. 1 \<le> v \<and> v \<le> sum_list vs" using vs member_le_sum_list by blast
  from mean_bounds (1) [OF _ this] len n m show ?thesis by auto
qed

text \<open>A dice that always shows 0 scores 0 with any number of dice.\<close>

lemma roll_loop_zero: "roll_loop (\<lambda>ds. (0, ds)) k (0, False, ds) = (0, False, ds)"
  by (induction k) simp_all

lemma make_averaged_zero_dice:
  assumes "0 < n"
  shows "\<exists>ds'. make_averaged roll_dice_fn n (Suc x, \<lambda>ds. (0, ds)) ds = Some (Inr (0, ds'))"
proof -
  have "\<exists>v ds'. roll_dice_fn (Suc x, \<lambda>ds. (0, ds)) d = Some (Inr (v, ds')) \<and> 0 \<le> v \<and> v \<le> 0" for d
    by (simp add: roll_dice_fn_def roll_dice_def roll_loop_zero)
  from make_averaged_range [where original_function = roll_dice_fn and args = "(Suc x, \<lambda>ds. (0, ds))"
      and lo = 0 and hi = 0, OF assms this, of ds] show ?thesis by auto
qed

section \<open>Games\<close>

lemma winner_bit:
  assumes "positive_dice dice" and "\<forall>s t. strategy0 s t \<le> 10" and "\<forall>s t. strategy1 s t \<le> 10"
  shows "\<exists>w ds'. winner strategy0 strategy1 dice ds = Some (Inr (w, ds')) \<and> w \<le> 1"
proof -
  from play_loop_terminates [OF square_update_progressive [OF assms(1)] assms(2,3),
      of 0 GOAL 0 0 ds]
  obtain a b ds' where "play strategy0 strategy1 square_update 0 0 dice GOAL ds = Some (Inr (a, b, ds'))"
    by (auto simp: play_def)
  then show ?thesis by (simp add: winner_def)
qed

section \<open>Properties of the experiments\<close>

text \<open>
  C35. The docstring of \<^verbatim>\<open>make_averaged\<close>, for every test dice: averaging
  one die over whole cycles of \<^verbatim>\<open>make_test_dice(*outcomes)\<close> gives the mean of
  the outcomes and leaves the dice where it started.
\<close>

theorem make_averaged_test_dice:
  assumes "outcomes \<noteq> []" and "0 < k"
  shows "make_averaged roll_dice_fn (k * length outcomes) (1, test_dice outcomes) (test_dice_start outcomes) =
           Some (Inr (of_nat (sum_list outcomes) / of_nat (length outcomes), test_dice_start outcomes))"
proof -
  from sample_sum_test_dice_cycles [OF assms(1), of k 0]
  have s: "sample_sum (roll_dice_fn (1, test_dice outcomes)) (k * length outcomes) (0, test_dice_start outcomes) =
           Some (Inr (k * sum_list outcomes, test_dice_start outcomes))" by simp
  have "(of_nat (k * sum_list outcomes) :: rat) / of_nat (k * length outcomes) =
        of_nat (sum_list outcomes) / of_nat (length outcomes)"
    using assms(2) by simp
  with s assms show ?thesis by (simp add: make_averaged_def)
qed

theorem make_averaged_test_dice_witness:
  "make_averaged roll_dice_fn 40 (1, test_dice [4, 2, 5, 1]) (test_dice_start [4, 2, 5, 1]) =
     Some (Inr (3, test_dice_start [4, 2, 5, 1]))"
  using make_averaged_test_dice [of "[4, 2, 5, 1]" 10] by simp

text \<open>
  C36. The docstring of \<^verbatim>\<open>max_scoring_num_rolls\<close>: with
  \<^verbatim>\<open>make_test_dice(1, 6)\<close> and an even number of samples, one die averages
  7/2 while more dice always bust, so the function returns 1.
\<close>

theorem max_scoring_num_rolls_docstring:
  assumes k: "0 < k"
  shows "\<exists>ds'. max_scoring_num_rolls (test_dice [1, 6]) (k * 2) (test_dice_start [1, 6]) = Some (Inr (1, ds'))"
proof -
  define f where "f = (\<lambda>num_rolls (best, ds). obind (make_averaged roll_dice_fn (k * 2) (num_rolls, test_dice [1, 6]) ds)
             (\<lambda>(avg_sum, ds'). Some (Inr (pick_step (num_rolls, avg_sum) best, ds'))))"
  from sample_sum_test_dice_cycles [of "[1, 6]" k 0]
  have s: "sample_sum (roll_dice_fn (1, test_dice [1, 6])) (k * 2) (0, test_dice_start [1, 6]) =
           Some (Inr (k * 7, test_dice_start [1, 6]))" by (simp add: mult_2_right)
  have "(of_nat (k * 7) :: rat) / of_nat (k * 2) = 7 / 2" using k by simp
  with s k have one: "f 1 ((0, None), test_dice_start [1, 6]) = Some (Inr ((7 / 2, Some 1), test_dice_start [1, 6]))"
    by (simp add: f_def make_averaged_def pick_step_def)
  have "\<exists>u'. for_each_o f [2..<11] ((7 / 2, Some 1), test_dice_start [1, 6]) =
          Some (Inr (fold (\<lambda>x b. pick_step (x, 1) b) [2..<11] (7 / 2, Some 1), u')) \<and> True"
  proof (rule for_each_o_fold)
    fix x b u
    assume "x \<in> set [2..<11]"
    then have "2 \<le> x" by auto
    from make_averaged_bust_16 [OF this, of "k * 2" u] k
    show "\<exists>u'. f x (b, u) = Some (Inr (pick_step (x, 1) b, u')) \<and> True"
      by (auto simp: f_def)
  qed simp
  then obtain u' where r: "for_each_o f [2..<11] ((7 / 2, Some 1), test_dice_start [1, 6]) =
      Some (Inr (fold (\<lambda>x b. pick_step (x, 1) b) [2..<11] (7 / 2, Some 1), u'))" by blast
  have "fold (\<lambda>x b. pick_step (x, 1) b) xs (7 / 2, Some 1) = (7 / 2, Some 1)" for xs :: "nat list"
    by (induction xs) (simp_all add: pick_step_def)
  with r have rest: "for_each_o f [2..<11] ((7 / 2, Some 1), test_dice_start [1, 6]) =
      Some (Inr ((7 / 2, Some 1), u'))" by (simp only:)
  have upt: "[1..<11] = 1 # [2..<11]" by (simp add: upt_conv_Cons)
  have "for_each_o f [1..<11] ((0, None), test_dice_start [1, 6]) = Some (Inr ((7 / 2, Some 1), u'))"
    unfolding upt by (simp only: for_each_o.simps one obind_simps rest)
  then show ?thesis unfolding max_scoring_num_rolls_def f_def [symmetric] by simp
qed

theorem max_scoring_num_rolls_docstring_witness:
  "\<exists>ds'. max_scoring_num_rolls (test_dice [1, 6]) 1000 (test_dice_start [1, 6]) = Some (Inr (1, ds'))"
  using max_scoring_num_rolls_docstring [of 500] by simp

text \<open>
  C37. With a dice whose outcomes are positive and at least one sample,
  \<^verbatim>\<open>max_scoring_num_rolls\<close> returns a number of dice between 1 and 10:
  the average of one die is positive, so \<^verbatim>\<open>best_roll\<close> is always bound.
\<close>

theorem max_scoring_num_rolls_range:
  assumes pd: "positive_dice dice" and n: "0 < total_samples"
  shows "\<exists>m ds'. max_scoring_num_rolls dice total_samples ds = Some (Inr (m, ds')) \<and> 1 \<le> m \<and> m \<le> 10"
proof -
  define f where "f = (\<lambda>num_rolls (best, ds). obind (make_averaged roll_dice_fn total_samples (num_rolls, dice) ds)
             (\<lambda>(avg_sum, ds'). Some (Inr (pick_step (num_rolls, avg_sum) best, ds'))))"
  define P :: "(rat \<times> nat option) \<times> 'a \<Rightarrow> bool" where "P = (\<lambda>((p, r), u). \<exists>m. r = Some m \<and> 1 \<le> m \<and> m \<le> 10)"
  from make_averaged_positive [OF pd _ n, of 1 ds] obtain a ds1
    where "make_averaged roll_dice_fn total_samples (1, dice) ds = Some (Inr (a, ds1))" and "1 \<le> a" by auto
  then have one: "f 1 ((0, None), ds) = Some (Inr ((a, Some 1), ds1))"
    by (simp add: f_def pick_step_def)
  have "\<exists>st. for_each_o f [2..<11] ((a, Some 1), ds1) = Some (Inr st) \<and> P st"
  proof (rule for_each_o_total)
    fix x st
    assume x: "x \<in> set [2..<11]" and P: "P st"
    obtain p r u where st: "st = ((p, r), u)" by (metis prod.exhaust)
    from x have "0 < x" "x \<le> 10" by auto
    from make_averaged_positive [OF pd \<open>0 < x\<close> n, of u] obtain a' u'
      where "make_averaged roll_dice_fn total_samples (x, dice) u = Some (Inr (a', u'))" by auto
    with P st \<open>0 < x\<close> \<open>x \<le> 10\<close> show "\<exists>st'. f x st = Some (Inr st') \<and> P st'"
      by (auto simp: f_def P_def pick_step_def)
  qed (simp add: P_def)
  then obtain p m u where rest: "for_each_o f [2..<11] ((a, Some 1), ds1) = Some (Inr ((p, Some m), u))"
    and m: "1 \<le> m" "m \<le> 10"
    by (auto simp: P_def)
  have upt: "[1..<11] = 1 # [2..<11]" by (simp add: upt_conv_Cons)
  have "for_each_o f [1..<11] ((0, None), ds) = Some (Inr ((p, Some m), u))"
    unfolding upt by (simp only: for_each_o.simps one obind_simps rest)
  with m show ?thesis unfolding max_scoring_num_rolls_def f_def [symmetric] by simp
qed

theorem max_scoring_num_rolls_range_witness:
  "\<exists>m ds'. max_scoring_num_rolls (test_dice [4, 2, 5, 6]) 1 3 = Some (Inr (m, ds')) \<and> 1 \<le> m \<and> m \<le> 10"
proof -
  have d: "positive_dice (test_dice [4, 2, 5, 6])" by (rule test_dice_positive) simp_all
  show ?thesis by (rule max_scoring_num_rolls_range [OF d]) simp
qed

text \<open>
  C38. With a dice whose outcomes are positive and strategies that ask for
  at most 10 dice, the game of \<^verbatim>\<open>winner\<close> ends with exactly one player at
  the goal, and \<^verbatim>\<open>winner\<close> returns 0 exactly when that player is player 0:
  the comparison \<^verbatim>\<open>score0 > score1\<close> decides who reached the goal.
\<close>

theorem winner_exact:
  assumes "positive_dice dice" and "\<forall>s t. strategy0 s t \<le> 10" and "\<forall>s t. strategy1 s t \<le> 10"
  shows "\<exists>a b ds'. play strategy0 strategy1 square_update 0 0 dice GOAL ds = Some (Inr (a, b, ds')) \<and>
           (GOAL \<le> a \<longleftrightarrow> b < GOAL) \<and>
           winner strategy0 strategy1 dice ds = Some (Inr (if GOAL \<le> a then 0 else 1, ds'))"
proof -
  from play_loop_terminates [OF square_update_progressive [OF assms(1)] assms(2,3), of 0 GOAL 0 0 ds]
  obtain a b ds' where p: "play strategy0 strategy1 square_update 0 0 dice GOAL ds = Some (Inr (a, b, ds'))"
    and one: "GOAL \<le> a \<or> GOAL \<le> b" and other: "a < GOAL \<or> b < GOAL"
    by (auto simp: play_def)
  from one other have excl: "GOAL \<le> a \<longleftrightarrow> b < GOAL" by auto
  from one other have "b < a \<longleftrightarrow> GOAL \<le> a" by auto
  with p excl show ?thesis by (simp add: winner_def)
qed

theorem winner_exact_witness:
  "\<exists>a b ds'. play always_roll_5 catch_up square_update 0 0 (test_dice [4, 2, 5, 6]) GOAL 3 = Some (Inr (a, b, ds')) \<and>
     (GOAL \<le> a \<longleftrightarrow> b < GOAL) \<and>
     winner always_roll_5 catch_up (test_dice [4, 2, 5, 6]) 3 = Some (Inr (if GOAL \<le> a then 0 else 1, ds'))"
proof -
  have d: "positive_dice (test_dice [4, 2, 5, 6])" by (rule test_dice_positive) simp_all
  have s0: "\<forall>s t. always_roll_5 s t \<le> 10" by (simp add: always_roll_5_def)
  have s1: "\<forall>s t. catch_up s t \<le> 10" by (simp add: catch_up_def)
  show ?thesis by (rule winner_exact [OF d s0 s1])
qed

text \<open>
  C39. With a dice whose outcomes are positive, strategies that ask for at
  most 10 dice and at least one sample, \<^verbatim>\<open>average_win_rate\<close> returns a rate
  between 0 and 1.
\<close>

theorem average_win_rate_bounds:
  assumes pd: "positive_dice dice" and s: "\<forall>s t. strategy s t \<le> 10" and b: "\<forall>s t. baseline s t \<le> 10"
    and n: "0 < total_samples"
  shows "\<exists>r ds'. average_win_rate strategy baseline total_samples dice ds = Some (Inr (r, ds')) \<and> 0 \<le> r \<and> r \<le> 1"
proof -
  have w: "\<exists>v ds'. (\<lambda>(s0, s1). winner s0 s1 dice) (s0', s1') d = Some (Inr (v, ds')) \<and> 0 \<le> v \<and> v \<le> 1"
    if "\<forall>s t. s0' s t \<le> 10" and "\<forall>s t. s1' s t \<le> 10" for s0' s1' d
    using winner_bit [OF pd that, of d] by auto
  obtain a0 d1 where m0: "make_averaged (\<lambda>(s0, s1). winner s0 s1 dice) total_samples (strategy, baseline) ds =
      Some (Inr (a0, d1))" and a0: "0 \<le> a0" "a0 \<le> 1"
    using make_averaged_range [where original_function = "\<lambda>(s0, s1). winner s0 s1 dice"
        and args = "(strategy, baseline)" and lo = 0 and hi = 1, OF n w [OF s b], of ds] by auto
  obtain a1 d2 where m1: "make_averaged (\<lambda>(s0, s1). winner s0 s1 dice) total_samples (baseline, strategy) d1 =
      Some (Inr (a1, d2))" and a1: "0 \<le> a1" "a1 \<le> 1"
    using make_averaged_range [where original_function = "\<lambda>(s0, s1). winner s0 s1 dice"
        and args = "(baseline, strategy)" and lo = 0 and hi = 1, OF n w [OF b s], of d1] by auto
  from a0 a1 have "0 \<le> ((1 - a0) + a1) / 2" "((1 - a0) + a1) / 2 \<le> 1" by simp_all
  moreover from m0 m1 have "average_win_rate strategy baseline total_samples dice ds =
      Some (Inr (((1 - a0) + a1) / 2, d2))" by (simp add: average_win_rate_def)
  ultimately show ?thesis by blast
qed

theorem average_win_rate_bounds_witness:
  "\<exists>r ds'. average_win_rate always_roll_5 catch_up 1 (test_dice [4, 2, 5, 6]) 3 = Some (Inr (r, ds')) \<and>
     0 \<le> r \<and> r \<le> 1"
proof -
  have d: "positive_dice (test_dice [4, 2, 5, 6])" by (rule test_dice_positive) simp_all
  have s0: "\<forall>s t. always_roll_5 s t \<le> 10" by (simp add: always_roll_5_def)
  have s1: "\<forall>s t. catch_up s t \<le> 10" by (simp add: catch_up_def)
  show ?thesis by (rule average_win_rate_bounds [OF d s0 s1]) simp
qed

text \<open>
  C40. The error paths of the harness: with no samples the first average
  divides by zero, so \<^verbatim>\<open>max_scoring_num_rolls\<close> and \<^verbatim>\<open>average_win_rate\<close>
  raise \<^verbatim>\<open>ZeroDivisionError\<close>; with a dice that shows 0 no average exceeds
  0, \<^verbatim>\<open>best_roll\<close> is never bound and \<^verbatim>\<open>max_scoring_num_rolls\<close> raises
  \<^verbatim>\<open>UnboundLocalError\<close> (its docstring assumes positive outcomes).
\<close>

theorem experiments_errors:
  "max_scoring_num_rolls dice 0 ds = Some (Inl ZeroDivisionError) \<and>
   average_win_rate strategy baseline 0 dice ds = Some (Inl ZeroDivisionError) \<and>
   max_scoring_num_rolls (\<lambda>d. (0, d)) (Suc n) (d0 :: nat) = Some (Inl UnboundLocalError)"
proof (intro conjI)
  have upt: "[1..<11] = 1 # [2..<11]" by (simp add: upt_conv_Cons)
  show "max_scoring_num_rolls dice 0 ds = Some (Inl ZeroDivisionError)"
    unfolding max_scoring_num_rolls_def upt by (simp add: make_averaged_def)
  show "average_win_rate strategy baseline 0 dice ds = Some (Inl ZeroDivisionError)"
    by (simp add: average_win_rate_def make_averaged_def)
  define f where "f = (\<lambda>num_rolls (best, ds). obind (make_averaged roll_dice_fn (Suc n) (num_rolls, \<lambda>d :: nat. (0, d)) ds)
             (\<lambda>(avg_sum, ds'). Some (Inr (pick_step (num_rolls, avg_sum) best, ds'))))"
  have "\<exists>u'. for_each_o f [1..<11] ((0, None), d0) =
          Some (Inr (fold (\<lambda>x b. pick_step (x, 0) b) [1..<11] (0, None), u')) \<and> True"
  proof (rule for_each_o_fold)
    fix x b u
    assume "x \<in> set [1..<11]"
    then have "0 < x" by simp
    then obtain y where x: "x = Suc y" using not0_implies_Suc by blast
    have "0 < Suc n" by simp
    from make_averaged_zero_dice [OF this, of y u] obtain u' where
      "make_averaged roll_dice_fn (Suc n) (Suc y, \<lambda>d :: nat. (0, d)) u = Some (Inr (0, u'))" ..
    then have "f x (b, u) = Some (Inr (pick_step (x, 0) b, u'))"
      unfolding f_def x by (simp only: prod.case obind_simps)
    then show "\<exists>u'. f x (b, u) = Some (Inr (pick_step (x, 0) b, u')) \<and> True" by blast
  qed simp
  then obtain u' where r: "for_each_o f [1..<11] ((0, None), d0) =
      Some (Inr (fold (\<lambda>x b. pick_step (x, 0) b) [1..<11] (0, None), u'))" by blast
  have "fold (\<lambda>x b. pick_step (x, 0) b) xs (0, None) = (0, None)" for xs :: "nat list"
    by (induction xs) (simp_all add: pick_step_def)
  with r have "for_each_o f [1..<11] ((0, None), d0) = Some (Inr ((0, None), u'))" by (simp only:)
  then show "max_scoring_num_rolls (\<lambda>d. (0, d)) (Suc n) d0 = Some (Inl UnboundLocalError)"
    unfolding max_scoring_num_rolls_def f_def [symmetric] by (simp only: obind_simps prod.case option.case)
qed

end
