(* ===== verification/Spec2Isabelle.thy ===== *)
theory Spec2Isabelle
  imports Simulator Hybrid Store Report Experiments
begin

text \<open>
  \<^bold>\<open>A verification of the Game of Hog (\<^verbatim>\<open>src/hog.py\<close>).\<close>

  The program has two halves. Phase 1 simulates the game: \<^verbatim>\<open>roll_dice\<close>
  (bust rule: any 1 makes the turn score 1), \<^verbatim>\<open>tail_points\<close> (Pig Tail, the
  score for rolling no dice), \<^verbatim>\<open>take_turn\<close>, the updates \<^verbatim>\<open>simple_update\<close>
  and \<^verbatim>\<open>square_update\<close> (Square Swine: a score that is a perfect square
  becomes the next one), and the loop \<^verbatim>\<open>play\<close>, with simple strategies
  (\<^verbatim>\<open>always_roll\<close>, \<^verbatim>\<open>catch_up\<close>, \<^verbatim>\<open>tail_strategy\<close>,
  \<^verbatim>\<open>square_strategy\<close>, \<^verbatim>\<open>is_always_roll\<close>). The second half computes a
  policy: \<^verbatim>\<open>dice_result\<close> builds the exact distribution of the outcome of
  \<open>n\<close> dice; \<^verbatim>\<open>max_prob_calc\<close> and \<^verbatim>\<open>find_best_move\<close> solve the game by
  backward induction with a memo table; \<^verbatim>\<open>gen_final_strategy\<close> fills the
  table and writes it to files; \<^verbatim>\<open>max_score_roll\<close> and
  \<^verbatim>\<open>gen_final_strategy_v05\<close> do the same for a greedy policy;
  \<^verbatim>\<open>final_strategy\<close> and \<^verbatim>\<open>final_strategy_v05\<close> play from the tables
  imported back from the files.

  \<^bold>\<open>Theories.\<close>
  \<^item> \<open>Hog_Prelude\<close>: Python exceptions as values (\<open>py_error + 'a\<close>, sequenced by
    \<open>ebind\<close>), the \<^verbatim>\<open>for\<close> loop \<open>for_each\<close> with its loop rules
    (\<open>for_each_invariant\<close>, \<open>for_each_fold\<close>: a loop refines a \<open>fold\<close>;
    \<open>for_each_fill\<close>: a loop that fills a table), the strict-argmax step
    \<open>pick_step\<close> shared by both solvers (lines 392--394, 411--413) with its
    argmax and tie-break lemmas, code that may not return (\<open>py_outcome\<close>,
    \<open>obind\<close>, the loop \<open>for_each_o\<close> with its totality and fold rules), and
    weighted sums \<open>wsum\<close>.
  \<^item> \<open>Rules\<close>: \<^verbatim>\<open>tail_points\<close>, \<^verbatim>\<open>perfect_square\<close>,
    \<^verbatim>\<open>next_perfect_square\<close>, \<^verbatim>\<open>square_add\<close> (C7--C10). The float square
    root of the code is the integer square root \<open>isqrt\<close>: the two agree for
    every score below \<open>2\<^sup>5\<^sup>2\<close>, far above any score of the game.
  \<^item> \<open>Distribution\<close>: \<^verbatim>\<open>dice_result\<close> (lines 328--356) with its loops, the
    normalisation and the pruning by the global \<^verbatim>\<open>prob_cutoff\<close>, a parameter
    \<open>c\<close> here (the program sets 0.001 in \<^verbatim>\<open>run\<close>). Its specification is the
    enumeration of the \<open>6\<^sup>n\<close> roll sequences (\<open>all_rolls\<close>, \<open>roll_prob\<close>):
    C1--C4 (refinement, totality, invariant, concrete values); C5, the
    probability of the bust outcome 1 without pruning, \<open>1 - (5/6)\<^sup>n\<close>;
    C6, the set of outcomes the lists hold (\<open>{1} \<union> {2n..6n}\<close>, all of it
    without pruning).
  \<^item> \<open>Simulator\<close>: Phase 1 and the simple strategies. A dice is a state \<open>'d\<close>
    with a step \<open>'d \<Rightarrow> nat \<times> 'd\<close>; \<^verbatim>\<open>make_test_dice\<close> of the course's
    \<^verbatim>\<open>dice.py\<close> is \<open>test_dice\<close>. \<^verbatim>\<open>play\<close>'s loop is a partial function into
    \<open>option\<close>, and C11 proves that it ends (liveness); C12 its error path; C13
    that \<^verbatim>\<open>is_always_roll\<close>'s loops decide constancy; C27 that
    \<^verbatim>\<open>square_strategy\<close> decides by the gain of \<^verbatim>\<open>square_update\<close> with 0
    dice and rolls 0 whenever \<^verbatim>\<open>tail_strategy\<close> does. One iteration of
    the loop is also the transition relation \<open>play_step\<close> on states
    \<open>(who, score0, score1, dice state)\<close>: C32 shows by rule induction on its
    reflexive transitive closure that every reachable state has \<open>who \<le> 1\<close>
    (the assert of line 143 holds), scores that never decrease and the game's
    result; C33 bounds every run by \<open>(goal - score0) + (goal - score1)\<close> turns.
  \<^item> \<open>Solver\<close>: \<^verbatim>\<open>find_best_move\<close> and \<^verbatim>\<open>max_prob_calc\<close> as one mutual
    recursive function over an explicit memo table (\<open>cell = CInt int | CMove
    nat rat\<close>, the integer \<open>0\<close> marking an unsolved cell), terminating by the
    measure \<open>200 - (s + t)\<close>: every outcome scores at least one point and
    Square Swine only raises a score. The specification \<open>optimal_move\<close> is the
    backward induction of the design as a pure function; the invariant
    \<open>table_ok\<close> says every cell is unsolved or optimal. C14 is the refinement
    (memoisation is sound), C15 the argmax with lowest-index ties, C16 the
    state 99, C17 the exception domain, C18 that \<^verbatim>\<open>gen_final_strategy\<close> solves
    every cell, C19 the bounds of a policy entry.
  \<^item> \<open>Greedy\<close>: \<^verbatim>\<open>max_score_roll\<close> and \<^verbatim>\<open>gen_final_strategy_v05\<close> over a
    table of integers (\<open>-1\<close> unsolved), against \<open>expected_score\<close> and
    \<open>greedy_move\<close>: C20--C23, and C31, the closed form of the table without
    pruning (the expected outcome of \<open>n\<close> dice is
    \<open>1 - (5/6)\<^sup>n + 4n(5/6)\<^sup>n\<close>, greatest at six dice, so the greedy table
    holds only 0 and 6).
  \<^item> \<open>Hybrid\<close>: \<^verbatim>\<open>final_strategy\<close> and \<^verbatim>\<open>final_strategy_v05\<close>; C24 shows
    that \<^verbatim>\<open>final_strategy\<close> raises \<^verbatim>\<open>TypeError\<close> on every unsolved cell
    and that its fallback never yields a move; C25 the hybrid choice.
  \<^item> \<open>Store\<close>: Python's \<^verbatim>\<open>str\<close> of the tables as written to the generated
    modules, and their import as a parser of list literals: C26 is the round
    trip of the greedy table; \<open>load_accepts_malformed\<close> shows that the import
    does not check the grid's shape.
  \<^item> \<open>Report\<close>: the console output of the two table builders (lines
    439--443 and 476--480) as lists of printed lines; lemmas show that the
    last line of \<^verbatim>\<open>gen_final_strategy_v05\<close>'s output is the text of
    \<^verbatim>\<open>best_score.py\<close> and that each cell's line shows the greedy or the
    optimal move of that state; C34 is the latter for
    \<^verbatim>\<open>gen_final_strategy\<close>, with no exception on the filled table.
  \<^item> \<open>Experiments\<close>: the harness (lines 222--283), \<^verbatim>\<open>make_averaged\<close>,
    \<^verbatim>\<open>max_scoring_num_rolls\<close>, \<^verbatim>\<open>winner\<close> and \<^verbatim>\<open>average_win_rate\<close>, with
    the dice state threaded through all samples. \<^verbatim>\<open>play\<close> returns the dice
    state at the end of a game for this purpose. C35 and C36 are the two
    docstrings, proved for every cycle count and applied at the docstrings'
    inputs; C37 and C39 are ranges and totality; C38 shows that \<^verbatim>\<open>winner\<close>'s
    comparison of scores names the player who reached the goal; C40 is the
    harness's \<^verbatim>\<open>ZeroDivisionError\<close> and \<^verbatim>\<open>UnboundLocalError\<close>.
  \<^item> This theory: the properties that span components, C28--C30.

  \<^bold>\<open>State and effects.\<close> The Python lists \<^verbatim>\<open>best_move\<close> and
  \<^verbatim>\<open>best_score\<close>, mutated in place and shared by all calls, are functions
  \<open>nat \<Rightarrow> nat \<Rightarrow> cell\<close> (\<open>table\<close>) and \<open>nat \<Rightarrow> nat \<Rightarrow> int\<close> (\<open>gtable\<close>) passed
  and returned by every operation; the asserts, \<^verbatim>\<open>TypeError\<close> from indexing
  an integer, \<^verbatim>\<open>UnboundLocalError\<close> from an unbound \<^verbatim>\<open>max_roll\<close>,
  \<^verbatim>\<open>IndexError\<close> off a 100 \<open>\<times>\<close> 100 list and \<^verbatim>\<open>RecursionError\<close> of
  \<^verbatim>\<open>dice_result(0)\<close> and \<^verbatim>\<open>ZeroDivisionError\<close> of an empty average are
  values \<open>Inl e\<close>. The loops over \<^verbatim>\<open>range\<close> are
  \<open>for_each\<close> over \<open>[0..<n]\<close> or its reverse; no fuel is needed anywhere: every
  recursion of the code has a termination proof, and \<^verbatim>\<open>play\<close>, which need not
  end, is a partial function proved to return under its hypotheses.

  \<^bold>\<open>Not modelled.\<close> The random \<^verbatim>\<open>six_sided\<close> dice
  (any dice with positive outcomes stands for it, and the harness's averages
  are functions of the initial dice state); the float quotient of
  \<^verbatim>\<open>make_averaged\<close>, modelled as the exact rational; \<^verbatim>\<open>run_experiments\<close>,
  which prints win rates of \<^verbatim>\<open>final_strategy\<close> and
  \<^verbatim>\<open>final_strategy_v05(i, j)\<close>, strategies that read and update the imported
  tables during \<^verbatim>\<open>play\<close>, while the model's \<^verbatim>\<open>play\<close> takes pure
  strategies; the \<^verbatim>\<open>print\<close> calls inside \<^verbatim>\<open>find_best_move\<close> and
  \<^verbatim>\<open>max_score_roll\<close>, which would thread an output trace through the
  solvers' recursion; \<^verbatim>\<open>run\<close> (argument parsing by \<^verbatim>\<open>argparse\<close>, a
  library the program only calls). The probabilities of
  \<^verbatim>\<open>best_move_w_prob.py\<close> are floats rounded to five digits: the rounding
  is a parameter \<open>rnd\<close>, the text of a rounded float a parameter
  \<open>show_prob\<close>, and the import is assumed to give back the written
  values, which holds for the moves the strategies read.
\<close>

section \<open>The outcome of a roll\<close>

text \<open>The faces a dice shows on \<open>k\<close> rolls from state \<open>ds\<close>, in order.\<close>

fun rolled_faces :: "'d dice \<Rightarrow> nat \<Rightarrow> 'd \<Rightarrow> nat list" where
  "rolled_faces dice 0 ds = []"
| "rolled_faces dice (Suc k) ds = (case dice ds of (r, ds') \<Rightarrow> r # rolled_faces dice k ds')"

lemma roll_loop_faces:
  "\<exists>ds'. roll_loop dice k (s, one, ds) =
     (s + sum_list (rolled_faces dice k ds), one \<or> 1 \<in> set (rolled_faces dice k ds), ds')"
proof (induction k arbitrary: s one ds)
  case (Suc k)
  obtain r ds1 where d: "dice ds = (r, ds1)" by fastforce
  from Suc.IH [of "s + r" "one \<or> r = 1" ds1] d show ?case by (auto simp: add.assoc)
qed simp

section \<open>Properties across components\<close>

text \<open>
  C28. The program's final strategy is optimal: \<^verbatim>\<open>gen_final_strategy\<close>
  solves the table without exception, exporting it as
  \<^verbatim>\<open>best_move_w_prob\<close> (for any rounding of the probabilities) raises
  nothing, and \<^verbatim>\<open>final_strategy\<close> on the exported table plays, in every state
  of the board, the optimal move of the backward induction, without changing
  the table.
\<close>

theorem final_strategy_optimal:
  "\<exists>tbl stored. gen_final_strategy c = Inr tbl \<and> best_move_w_prob rnd tbl = Inr stored \<and>
     (\<forall>s<100. \<forall>t<100. final_strategy c stored s t = Inr (fst (optimal_move c s t), stored))"
proof -
  obtain tbl where g: "gen_final_strategy c = Inr tbl" using gen_final_strategy_ok [of c] by blast
  define stored where "stored = (\<lambda>i j. case tbl i j of CMove m p \<Rightarrow> CMove m (rnd p) | entry \<Rightarrow> entry)"
  have cells: "tbl s t = opt_cell c s t" if "s < 100" "t < 100" for s t
    by (rule gen_final_strategy_cells [OF g that])
  then have "list_all (\<lambda>i. list_all (\<lambda>j. is_solved (tbl i j)) [0..<100]) [0..<100]"
    by (intro all_board_solved) (simp add: opt_cell_def is_solved_def)
  then have st: "best_move_w_prob rnd tbl = Inr stored" by (simp add: best_move_w_prob_def stored_def)
  have "final_strategy c stored s t = Inr (fst (optimal_move c s t), stored)" if "s < 100" "t < 100" for s t
    using cells [OF that] that by (simp add: final_strategy_def stored_def opt_cell_def cell_move_def)
  with g st show ?thesis by blast
qed

theorem final_strategy_optimal_witness:
  "\<exists>tbl stored. gen_final_strategy 0 = Inr tbl \<and> best_move_w_prob id tbl = Inr stored \<and>
     final_strategy 0 stored 99 0 = Inr (0, stored)"
proof -
  obtain tbl stored where "gen_final_strategy 0 = Inr tbl" "best_move_w_prob id tbl = Inr stored"
    and all: "\<forall>s<100. \<forall>t<100. final_strategy 0 stored s t = Inr (fst (optimal_move 0 s t), stored)"
    using final_strategy_optimal [of 0 id] by blast
  moreover have "final_strategy 0 stored 99 0 = Inr (0, stored)"
    using all [rule_format, of 99 0] optimal_move_99 [of 0 0] by simp
  ultimately show ?thesis by blast
qed

text \<open>
  C29. The hybrid strategy over the persisted tables: with the optimal table
  exported and the greedy table saved to \<^verbatim>\<open>best_score.py\<close> and imported back,
  \<^verbatim>\<open>final_strategy_v05\<close> plays in every state the optimal move when behind
  by less than the loss margin or past the end threshold, and the greedy move
  otherwise, without exception and without recomputing anything.
\<close>

theorem final_strategy_v05_persisted:
  "\<exists>tbl stored gtbl g. gen_final_strategy c = Inr tbl \<and> best_move_w_prob rnd tbl = Inr stored \<and>
     gen_final_strategy_v05 c = Inr gtbl \<and> load_best_score (save_best_score gtbl) = Some g \<and>
     (\<forall>s<100. \<forall>t<100. final_strategy_v05 c ls es stored (\<lambda>i j. g ! i ! j) s t =
        Inr (if int s < int t + ls \<or> 100 - es < int s then int (fst (optimal_move c s t))
             else int (greedy_move c s t), stored, \<lambda>i j. g ! i ! j))"
proof -
  obtain tbl where g: "gen_final_strategy c = Inr tbl" using gen_final_strategy_ok [of c] by blast
  obtain gtbl where gg: "gen_final_strategy_v05 c = Inr gtbl" using gen_final_strategy_v05_ok [of c] by blast
  define stored where "stored = (\<lambda>i j. case tbl i j of CMove m p \<Rightarrow> CMove m (rnd p) | entry \<Rightarrow> entry)"
  define G where "G = (\<lambda>i j. grid_of gtbl ! i ! j)"
  have cells: "tbl s t = opt_cell c s t" if "s < 100" "t < 100" for s t
    by (rule gen_final_strategy_cells [OF g that])
  then have "list_all (\<lambda>i. list_all (\<lambda>j. is_solved (tbl i j)) [0..<100]) [0..<100]"
    by (intro all_board_solved) (simp add: opt_cell_def is_solved_def)
  then have st: "best_move_w_prob rnd tbl = Inr stored" by (simp add: best_move_w_prob_def stored_def)
  have play: "final_strategy_v05 c ls es stored G s t =
        Inr (if int s < int t + ls \<or> 100 - es < int s then int (fst (optimal_move c s t))
             else int (greedy_move c s t), stored, G)" if st': "s < 100" "t < 100" for s t
  proof -
    have "stored s t = CMove (fst (optimal_move c s t)) (rnd (snd (optimal_move c s t)))"
      using cells [OF st'] by (simp add: stored_def opt_cell_def)
    then have "find_best_move c s t stored = Inr (stored s t, stored)"
      using find_best_move_solved [OF st', of stored c] by simp
    moreover have "G s t = int (greedy_move c s t)"
      using grid_of_nth [OF st', of gtbl] gen_final_strategy_v05_cells [OF gg st'] by (simp add: G_def)
    then have "max_score_roll c s t G = Inr (int (greedy_move c s t), G)"
      using max_score_roll_solved [OF st', of G c] by simp
    moreover have "cell_move (stored s t) = Inr (fst (optimal_move c s t))"
      using cells [OF st'] by (simp add: stored_def opt_cell_def cell_move_def)
    ultimately show ?thesis by (simp add: final_strategy_v05_def Let_def)
  qed
  from g st gg load_save_best_score [of gtbl] play show ?thesis unfolding G_def by blast
qed

theorem final_strategy_v05_persisted_witness:
  "\<exists>tbl stored gtbl g. gen_final_strategy 0 = Inr tbl \<and> best_move_w_prob id tbl = Inr stored \<and>
     gen_final_strategy_v05 0 = Inr gtbl \<and> load_best_score (save_best_score gtbl) = Some g \<and>
     final_strategy_v05 0 10 16 stored (\<lambda>i j. g ! i ! j) 99 0 = Inr (0, stored, \<lambda>i j. g ! i ! j)"
proof -
  obtain tbl stored gtbl g where "gen_final_strategy 0 = Inr tbl" "best_move_w_prob id tbl = Inr stored"
    "gen_final_strategy_v05 0 = Inr gtbl" "load_best_score (save_best_score gtbl) = Some g"
    and all: "\<forall>s<100. \<forall>t<100. final_strategy_v05 0 10 16 stored (\<lambda>i j. g ! i ! j) s t =
        Inr (if int s < int t + 10 \<or> 100 - 16 < int s then int (fst (optimal_move 0 s t))
             else int (greedy_move 0 s t), stored, \<lambda>i j. g ! i ! j)"
    using final_strategy_v05_persisted [of 0 id 10 16] by blast
  moreover have "final_strategy_v05 0 10 16 stored (\<lambda>i j. g ! i ! j) 99 0 = Inr (0, stored, \<lambda>i j. g ! i ! j)"
    using all [rule_format, of 99 0] optimal_move_99 [of 0 0] by simp
  ultimately show ?thesis by blast
qed

text \<open>
  C30. \<^verbatim>\<open>roll_dice\<close> of the simulator scores the bust-rule outcome of the
  faces it rolls, the outcome \<open>bust_outcome\<close> whose exact distribution
  \<^verbatim>\<open>dice_result\<close> computes (C1): for every dice, 1 if a face is 1 and their
  sum otherwise.
\<close>

theorem roll_dice_bust_outcome:
  "0 < n \<Longrightarrow> \<exists>ds'. roll_dice n dice ds = Inr (bust_outcome (rolled_faces dice n ds), ds')"
proof -
  assume n: "0 < n"
  obtain ds' where "roll_loop dice n (0, False, ds) =
      (sum_list (rolled_faces dice n ds), 1 \<in> set (rolled_faces dice n ds), ds')"
    using roll_loop_faces [of dice n 0 False ds] by auto
  with n show ?thesis by (simp add: roll_dice_def bust_outcome_def)
qed

theorem roll_dice_bust_outcome_witness:
  "0 < (3::nat) \<and> (\<exists>ds'. roll_dice 3 (test_dice [4, 2, 5, 6]) (test_dice_start [4, 2, 5, 6]) = Inr (11, ds'))"
proof -
  have "rolled_faces (test_dice [4, 2, 5, 6]) 3 (test_dice_start [4, 2, 5, 6]) = [4, 2, 5]"
    by code_simp
  with roll_dice_bust_outcome [of 3 "test_dice [4, 2, 5, 6]" "test_dice_start [4, 2, 5, 6]"]
  show ?thesis by (simp add: bust_outcome_def)
qed

end
